theory Spec2Isabelle
  imports Main
begin

section \<open>Data model of the enhanced dependency analyzer\<close>

text \<open>
  A parsed mapping (the \<open>inputs\<close> of a terragrunt file, the \<open>variables\<close> of a module
  block) is used by the analyzer in two ways only: \<open>len(d)\<close> in the complexity score and
  \<open>str(d)\<close> as the text the reference patterns are searched in. The model keeps exactly
  these two observations of the Python dict.
\<close>

record hcl_dict =
  dict_len :: nat
  dict_str :: string

definition empty_dict :: hcl_dict where
  "empty_dict = \<lparr>dict_len = 0, dict_str = ''{}''\<rparr>"

record DependencyInfo =
  source_module :: string
  target_module :: string
  dependency_type :: string
  reference_path :: string
  line_number :: "nat option"
  file_path :: "string option"

record ModuleInfo =
  name :: string
  source :: string
  path :: string
  variables :: hcl_dict
  outputs :: "string list"
  dependencies :: "string list"
  terragrunt_dependencies :: "string list"
  data_sources :: "string list"
  resources :: "string list"
  dependency_details :: "DependencyInfo list"
  complexity_score :: int

text \<open>The dataclass constructor \<open>ModuleInfo(name=..., source=..., path=...)\<close> with its defaults.\<close>

definition new_ModuleInfo :: "string \<Rightarrow> string \<Rightarrow> string \<Rightarrow> ModuleInfo" where
  "new_ModuleInfo n s p =
     \<lparr>name = n, source = s, path = p, variables = empty_dict, outputs = [],
      dependencies = [], terragrunt_dependencies = [], data_sources = [], resources = [],
      dependency_details = [], complexity_score = 0\<rparr>"

section \<open>Complexity score\<close>

definition calculate_complexity_score :: "ModuleInfo \<Rightarrow> int" where
  "calculate_complexity_score module_info =
     (let score = 0;
          score = score + 1;
          score = score + int (length (dependencies module_info)) * 2;
          score = score + int (length (terragrunt_dependencies module_info)) * 2;
          score = score + int (dict_len (variables module_info));
          score = score + int (length (outputs module_info));
          score = score + int (length (data_sources module_info)) * 3;
          score = score + int (length (resources module_info)) * 2
      in score)"

section \<open>Python string helpers and the reference patterns\<close>

text \<open>\<open>str.startswith\<close> and \<open>str.split\<close> on a one-character separator.\<close>

definition startswith :: "string \<Rightarrow> string \<Rightarrow> bool" where
  "startswith s pre = (take (length pre) s = pre)"

fun split_on :: "char \<Rightarrow> string \<Rightarrow> string list" where
  "split_on sep [] = [[]]"
| "split_on sep (c # cs) =
     (if c = sep then [] # split_on sep cs
      else (case split_on sep cs of [] \<Rightarrow> [[c]] | p # ps \<Rightarrow> (c # p) # ps))"

text \<open>The character class \<open>[a-zA-Z0-9_-]\<close>.\<close>

definition ident_char :: "char \<Rightarrow> bool" where
  "ident_char c =
     (let n = (of_char c :: nat)
      in (97 \<le> n \<and> n \<le> 122) \<or> (65 \<le> n \<and> n \<le> 90) \<or> (48 \<le> n \<and> n \<le> 57)
         \<or> c = CHR ''_'' \<or> c = CHR ''-'')"

text \<open>
  The three regular expressions of the analyzer are sequences of literal text and of the
  capture group \<open>([a-zA-Z0-9_-]+)\<close>. Every group is followed by a literal that starts
  with a dot, or ends the pattern, so the greedy match of a group (the longest run of
  class characters) is the only one the regular expression engine can succeed with, and
  matching needs no backtracking.
\<close>

datatype pat_item = Lit string | Group

fun strip_prefix :: "string \<Rightarrow> string \<Rightarrow> string option" where
  "strip_prefix [] s = Some s"
| "strip_prefix (c # cs) [] = None"
| "strip_prefix (c # cs) (d # ds) = (if c = d then strip_prefix cs ds else None)"

text \<open>A match at the start of the text: the captured groups and the text after the match.\<close>

fun match_here :: "pat_item list \<Rightarrow> string \<Rightarrow> (string list \<times> string) option" where
  "match_here [] s = Some ([], s)"
| "match_here (Lit l # ps) s =
     (case strip_prefix l s of None \<Rightarrow> None | Some r \<Rightarrow> match_here ps r)"
| "match_here (Group # ps) s =
     (let g = takeWhile ident_char s
      in if g = [] then None
         else (case match_here ps (dropWhile ident_char s) of
                 None \<Rightarrow> None
               | Some (gs, r) \<Rightarrow> Some (g # gs, r)))"

text \<open>
  \<open>re.findall\<close>: the groups of all non-overlapping matches, scanning from the left. After a
  match the scan goes on behind it; where there is no match it moves one character on.
  (The patterns here match no empty text, so the second branch of the \<open>if\<close> is never
  taken by them.)
\<close>

function findall :: "pat_item list \<Rightarrow> string \<Rightarrow> string list list" where
  "findall p [] = []"
| "findall p (c # cs) =
     (case match_here p (c # cs) of
        None \<Rightarrow> findall p cs
      | Some (gs, r) \<Rightarrow>
          if length r < length (c # cs) then gs # findall p r else gs # findall p cs)"
  by pat_completeness auto
termination
  by (relation "measure (\<lambda>(p, s). length s)") auto

definition module_ref_pattern :: "pat_item list" where
  "module_ref_pattern = [Lit ''module.'', Group, Lit ''.'', Group]"

definition data_ref_pattern :: "pat_item list" where
  "data_ref_pattern = [Lit ''data.'', Group, Lit ''.'', Group, Lit ''.'', Group]"

definition remote_state_pattern :: "pat_item list" where
  "remote_state_pattern =
     [Lit ''data.terraform_remote_state.'', Group, Lit ''.outputs.'', Group]"

section \<open>Reference extraction\<close>

definition new_DependencyInfo ::
  "string \<Rightarrow> string \<Rightarrow> string \<Rightarrow> string \<Rightarrow> string \<Rightarrow> DependencyInfo" where
  "new_DependencyInfo src tgt ty ref fp =
     \<lparr>source_module = src, target_module = tgt, dependency_type = ty,
      reference_path = ref, line_number = None, file_path = Some fp\<rparr>"

text \<open>
  The body of the loop over \<open>module_refs\<close>, shared by \<open>_analyze_variable_dependencies\<close>
  (type \<open>module_output\<close>) and \<open>_extract_module_dependencies\<close> (type \<open>module_reference\<close>).
\<close>

fun add_module_ref :: "string \<Rightarrow> string \<Rightarrow> ModuleInfo \<Rightarrow> string list \<Rightarrow> ModuleInfo" where
  "add_module_ref ty fp module_info [ref_module, ref_output] =
     (if ref_module \<noteq> name module_info
      then module_info
             \<lparr>dependencies := dependencies module_info @ [ref_module],
              dependency_details := dependency_details module_info @
                [new_DependencyInfo (name module_info) ref_module ty
                   (''module.'' @ ref_module @ ''.'' @ ref_output) fp]\<rparr>
      else module_info)"
| "add_module_ref ty fp module_info _ = module_info"

fun add_data_ref :: "string \<Rightarrow> ModuleInfo \<Rightarrow> string list \<Rightarrow> ModuleInfo" where
  "add_data_ref fp module_info [data_type, data_name, data_output] =
     module_info
       \<lparr>data_sources := data_sources module_info @ [data_type @ ''.'' @ data_name],
        dependency_details := dependency_details module_info @
          [new_DependencyInfo (name module_info) (data_type @ ''.'' @ data_name) ''data_source''
             (''data.'' @ data_type @ ''.'' @ data_name @ ''.'' @ data_output) fp]\<rparr>"
| "add_data_ref fp module_info _ = module_info"

fun add_remote_state_ref :: "string \<Rightarrow> ModuleInfo \<Rightarrow> string list \<Rightarrow> ModuleInfo" where
  "add_remote_state_ref fp module_info [remote_state_name, remote_output] =
     module_info
       \<lparr>dependency_details := dependency_details module_info @
          [new_DependencyInfo (name module_info) (''remote_state.'' @ remote_state_name)
             ''remote_state''
             (''data.terraform_remote_state.'' @ remote_state_name @ ''.outputs.'' @ remote_output)
             fp]\<rparr>"
| "add_remote_state_ref fp module_info _ = module_info"

text \<open>\<open>_analyze_variable_dependencies\<close>; it mutates \<open>module_info\<close>, the model returns it.\<close>

definition analyze_variable_dependencies :: "ModuleInfo \<Rightarrow> hcl_dict \<Rightarrow> string \<Rightarrow> ModuleInfo" where
  "analyze_variable_dependencies module_info vars fp =
     (let variables_str = dict_str vars;
          module_info = foldl (add_module_ref ''module_output'' fp) module_info
                          (findall module_ref_pattern variables_str);
          module_info = foldl (add_data_ref fp) module_info
                          (findall data_ref_pattern variables_str);
          module_info = foldl (add_remote_state_ref fp) module_info
                          (findall remote_state_pattern variables_str)
      in module_info)"

text \<open>\<open>_extract_module_dependencies\<close>, on \<open>str(module_config)\<close>.\<close>

definition extract_module_dependencies :: "ModuleInfo \<Rightarrow> string \<Rightarrow> string \<Rightarrow> ModuleInfo" where
  "extract_module_dependencies module_info config_str fp =
     foldl (add_module_ref ''module_reference'' fp) module_info
       (findall module_ref_pattern config_str)"

section \<open>Input files and the module registry\<close>

text \<open>
  What the analyzer reads of a \<open>pathlib.Path\<close>: \<open>str(file_path)\<close>,
  \<open>str(file_path.parent)\<close> and \<open>file_path.parent.name\<close>.
\<close>

record py_path =
  path_str :: string
  parent_str :: string
  parent_name :: string

text \<open>
  The result of \<open>hcl2.loads\<close> on a \<open>terragrunt.hcl\<close>, as far as \<open>parse_terragrunt_file\<close>
  reads it: the \<open>source\<close> of the first \<open>terraform\<close> block when there is one, the
  \<open>dependency\<close> blocks (each a mapping from a dependency name to a configuration, of
  which only \<open>config_path\<close> is read), and the \<open>inputs\<close>.
\<close>

record terragrunt_doc =
  tg_source :: "string option"
  tg_dependency :: "(string \<times> string option) list list"
  tg_inputs :: "hcl_dict option"

text \<open>
  A module block's configuration: its \<open>source\<close> and \<open>variables\<close> entries when present,
  and \<open>str(module_config)\<close>.
\<close>

record module_config =
  mc_source :: "string option"
  mc_variables :: "hcl_dict option"
  mc_str :: string

text \<open>
  The result of \<open>hcl2.loads\<close> on a \<open>.tf\<close> file: module blocks, data blocks (name and
  \<open>str\<close> of the configuration), output blocks (name and \<open>str\<close> of the \<open>value\<close> when
  there is one) and resource blocks (type and \<open>str\<close> of the configuration).
\<close>

record terraform_doc =
  tf_module :: "(string \<times> module_config) list list"
  tf_data :: "(string \<times> string) list list"
  tf_output :: "(string \<times> string option) list list"
  tf_resource :: "(string \<times> string) list list"

text \<open>
  A configuration file: its path and what opening, reading and \<open>hcl2.loads\<close> give,
  \<open>None\<close> when one of them raises, which the \<open>try\<close> around them catches.
\<close>

record 'd config_file =
  cf_path :: py_path
  cf_parsed :: "'d option"

text \<open>
  Python dicts keep insertion order; assigning to a key that is present replaces the value
  in place. \<open>dict_modify\<close> is the mutation of the object stored under a key.
\<close>

fun dict_set :: "'k \<Rightarrow> 'v \<Rightarrow> ('k \<times> 'v) list \<Rightarrow> ('k \<times> 'v) list" where
  "dict_set k v [] = [(k, v)]"
| "dict_set k v ((k', v') # d) =
     (if k' = k then (k, v) # d else (k', v') # dict_set k v d)"

definition dict_keys :: "('k \<times> 'v) list \<Rightarrow> 'k list" where
  "dict_keys d = map fst d"

definition dict_modify :: "'k \<Rightarrow> ('v \<Rightarrow> 'v) \<Rightarrow> ('k \<times> 'v) list \<Rightarrow> ('k \<times> 'v) list" where
  "dict_modify k f d = map (\<lambda>(k', v). if k' = k then (k', f v) else (k', v)) d"

type_synonym registry = "(string \<times> ModuleInfo) list"

section \<open>Parsing terragrunt files\<close>

text \<open>The body of the loop over the entries of one \<open>dependency\<close> block.\<close>

definition add_terragrunt_dependency ::
  "py_path \<Rightarrow> ModuleInfo \<Rightarrow> string \<times> string option \<Rightarrow> ModuleInfo" where
  "add_terragrunt_dependency fp module_info dep =
     (case snd dep of
        None \<Rightarrow> module_info
      | Some config_path \<Rightarrow>
          if startswith config_path ''../../''
          then (let parts = split_on CHR ''/'' config_path
                in if length parts \<ge> 2
                   then (let module_name = last parts
                         in module_info
                              \<lparr>terragrunt_dependencies :=
                                 terragrunt_dependencies module_info @ [module_name],
                               dependency_details := dependency_details module_info @
                                 [new_DependencyInfo (name module_info) module_name
                                    ''terragrunt'' config_path (path_str fp)]\<rparr>)
                   else module_info)
          else module_info)"

text \<open>The \<open>try\<close> body of \<open>parse_terragrunt_file\<close> after \<open>hcl2.loads\<close> has returned.\<close>

definition parse_terragrunt_doc :: "py_path \<Rightarrow> terragrunt_doc \<Rightarrow> ModuleInfo" where
  "parse_terragrunt_doc fp parsed =
     (let module_info = new_ModuleInfo (parent_name fp) [] (parent_str fp);
          module_info = (case tg_source parsed of
                           None \<Rightarrow> module_info
                         | Some s \<Rightarrow> module_info\<lparr>source := s\<rparr>);
          module_info = foldl (\<lambda>mi dep. foldl (add_terragrunt_dependency fp) mi dep)
                          module_info (tg_dependency parsed);
          module_info = (case tg_inputs parsed of
                           None \<Rightarrow> module_info
                         | Some inputs \<Rightarrow>
                             analyze_variable_dependencies (module_info\<lparr>variables := inputs\<rparr>)
                               inputs (path_str fp));
          module_info = module_info\<lparr>complexity_score := calculate_complexity_score module_info\<rparr>
      in module_info)"

text \<open>
  \<open>parse_terragrunt_file\<close>: the descriptor, or \<open>None\<close> with an entry in the error log
  (here the path of the file) when reading or parsing raised.
\<close>

definition parse_terragrunt_file ::
  "terragrunt_doc config_file \<Rightarrow> string list \<Rightarrow> ModuleInfo option \<times> string list" where
  "parse_terragrunt_file f lg =
     (case cf_parsed f of
        None \<Rightarrow> (None, lg @ [path_str (cf_path f)])
      | Some parsed \<Rightarrow> (Some (parse_terragrunt_doc (cf_path f) parsed), lg))"

section \<open>Parsing terraform files\<close>

definition parse_module_block ::
  "py_path \<Rightarrow> registry \<Rightarrow> string \<times> module_config \<Rightarrow> registry" where
  "parse_module_block fp mods blk =
     (let module_name = fst blk;
          module_config = snd blk;
          module_info = new_ModuleInfo module_name
                          (case mc_source module_config of None \<Rightarrow> [] | Some s \<Rightarrow> s)
                          (parent_str fp);
          module_info = (case mc_variables module_config of
                           None \<Rightarrow> module_info
                         | Some vars \<Rightarrow>
                             analyze_variable_dependencies (module_info\<lparr>variables := vars\<rparr>)
                               vars (path_str fp));
          module_info = extract_module_dependencies module_info (mc_str module_config)
                          (path_str fp)
      in dict_set module_name module_info mods)"

definition append_detail :: "DependencyInfo \<Rightarrow> ModuleInfo \<Rightarrow> ModuleInfo" where
  "append_detail dep_info mi = mi\<lparr>dependency_details := dependency_details mi @ [dep_info]\<rparr>"

text \<open>
  The loop body shared by \<open>_analyze_data_source_dependencies\<close> and
  \<open>_analyze_resource_dependencies\<close>: a record of the given type and source is appended to
  the details of the referenced module when the registry knows it.
\<close>

fun add_entity_ref :: "string \<Rightarrow> string \<Rightarrow> string \<Rightarrow> registry \<Rightarrow> string list \<Rightarrow> registry" where
  "add_entity_ref src ty fp mods [ref_module, ref_output] =
     (if ref_module \<in> set (dict_keys mods)
      then dict_modify ref_module
             (append_detail (new_DependencyInfo src ref_module ty
                (''module.'' @ ref_module @ ''.'' @ ref_output) fp)) mods
      else mods)"
| "add_entity_ref src ty fp mods _ = mods"

definition analyze_data_source_dependencies ::
  "registry \<Rightarrow> string \<Rightarrow> string \<Rightarrow> string \<Rightarrow> registry" where
  "analyze_data_source_dependencies mods data_name config_str fp =
     foldl (add_entity_ref (''data.'' @ data_name) ''data_source_module'' fp) mods
       (findall module_ref_pattern config_str)"

definition analyze_resource_dependencies ::
  "registry \<Rightarrow> string \<Rightarrow> string \<Rightarrow> string \<Rightarrow> registry" where
  "analyze_resource_dependencies mods resource_type config_str fp =
     foldl (add_entity_ref (''resource.'' @ resource_type) ''resource_module'' fp) mods
       (findall module_ref_pattern config_str)"

fun add_output_ref :: "registry \<Rightarrow> string list \<Rightarrow> registry" where
  "add_output_ref mods [ref_module, ref_output] =
     (if ref_module \<in> set (dict_keys mods)
      then dict_modify ref_module
             (\<lambda>mi. if ref_output \<notin> set (outputs mi)
                   then mi\<lparr>outputs := outputs mi @ [ref_output]\<rparr> else mi) mods
      else mods)"
| "add_output_ref mods _ = mods"

definition analyze_output_dependencies :: "registry \<Rightarrow> string \<Rightarrow> string \<Rightarrow> registry" where
  "analyze_output_dependencies mods value_str fp =
     foldl add_output_ref mods (findall module_ref_pattern value_str)"

text \<open>The \<open>try\<close> body of \<open>parse_terraform_files\<close> for one file, after \<open>hcl2.loads\<close>.\<close>

definition parse_terraform_doc :: "py_path \<Rightarrow> terraform_doc \<Rightarrow> registry \<Rightarrow> registry" where
  "parse_terraform_doc fp parsed mods =
     (let mods = foldl (\<lambda>ms module_block. foldl (parse_module_block fp) ms module_block)
                   mods (tf_module parsed);
          mods = foldl (\<lambda>ms data_block.
                    foldl (\<lambda>ms' (data_name, data_config).
                             analyze_data_source_dependencies ms' data_name data_config
                               (path_str fp)) ms data_block)
                   mods (tf_data parsed);
          mods = foldl (\<lambda>ms output_block.
                    foldl (\<lambda>ms' (output_name, output_value).
                             case output_value of
                               None \<Rightarrow> ms'
                             | Some v \<Rightarrow> analyze_output_dependencies ms' v (path_str fp))
                          ms output_block)
                   mods (tf_output parsed);
          mods = foldl (\<lambda>ms resource_block.
                    foldl (\<lambda>ms' (resource_type, resource_config).
                             analyze_resource_dependencies ms' resource_type resource_config
                               (path_str fp)) ms resource_block)
                   mods (tf_resource parsed)
      in mods)"

section \<open>The dependency graph\<close>

text \<open>
  A \<open>networkx.DiGraph\<close>: the nodes and the edges in insertion order, no edge twice. (The
  \<open>module_info\<close> attribute that \<open>add_node\<close> attaches to a node is read nowhere and is left
  out.)
\<close>

record digraph =
  nodes :: "string list"
  edges :: "(string \<times> string) list"

definition empty_digraph :: digraph where
  "empty_digraph = \<lparr>nodes = [], edges = []\<rparr>"

definition add_node :: "string \<Rightarrow> digraph \<Rightarrow> digraph" where
  "add_node n G = (if n \<in> set (nodes G) then G else G\<lparr>nodes := nodes G @ [n]\<rparr>)"

definition add_edge :: "string \<Rightarrow> string \<Rightarrow> digraph \<Rightarrow> digraph" where
  "add_edge u v G =
     (let G = add_node u G;
          G = add_node v G
      in if (u, v) \<in> set (edges G) then G else G\<lparr>edges := edges G @ [(u, v)]\<rparr>)"

definition successors :: "('a \<times> 'a) list \<Rightarrow> 'a \<Rightarrow> 'a list" where
  "successors E u = map snd (filter (\<lambda>e. fst e = u) E)"

text \<open>The analyzer object: the fields of its \<open>DependencyGraph\<close> and what it has logged.\<close>

record analyzer =
  modules :: registry
  graph :: digraph
  circular_dependencies :: "string list list"
  dependency_paths :: "(string \<times> string list list) list"
  impact_analysis :: "(string \<times> string set) list"
  error_log :: "string list"

definition new_analyzer :: analyzer where
  "new_analyzer =
     \<lparr>modules = [], graph = empty_digraph, circular_dependencies = [],
      dependency_paths = [], impact_analysis = [], error_log = []\<rparr>"

definition add_dependency_edge :: "registry \<Rightarrow> string \<Rightarrow> digraph \<Rightarrow> string \<Rightarrow> digraph" where
  "add_dependency_edge mods module_name G dep =
     (if dep \<in> set (dict_keys mods) then add_edge dep module_name G else G)"

definition build_dependency_graph :: "analyzer \<Rightarrow> analyzer" where
  "build_dependency_graph st =
     (let G = foldl (\<lambda>G (module_name, module_info). add_node module_name G)
                (graph st) (modules st);
          G = foldl (\<lambda>G (module_name, module_info).
                 (let G = foldl (add_dependency_edge (modules st) module_name) G
                            (dependencies module_info);
                      G = foldl (add_dependency_edge (modules st) module_name) G
                            (terragrunt_dependencies module_info)
                  in G))
                G (modules st)
      in st\<lparr>graph := G\<rparr>)"

section \<open>The graph algorithms of the networkx library\<close>

datatype nx_error = NodeNotFound string

text \<open>A loop that an exception leaves: the first error ends it.\<close>

fun for_each :: "('s \<Rightarrow> 'a \<Rightarrow> 'e + 's) \<Rightarrow> 's \<Rightarrow> 'a list \<Rightarrow> 'e + 's" where
  "for_each f s [] = Inr s"
| "for_each f s (x # xs) = (case f s x of Inl e \<Rightarrow> Inl e | Inr s' \<Rightarrow> for_each f s' xs)"

text \<open>
  Modelled from the spec: \<open>networkx.has_path\<close> is library code outside the sources. The
  spec asks for "standard graph reachability (BFS/DFS from M)"; this is a breadth-first
  search with a queue and the list of the nodes visited so far.
\<close>

function reachable_from :: "('a \<times> 'a) list \<Rightarrow> 'a list \<Rightarrow> 'a list \<Rightarrow> 'a list" where
  "reachable_from E visited [] = visited"
| "reachable_from E visited (u # queue) =
     (if u \<in> set visited then reachable_from E visited queue
      else reachable_from E (u # visited) (queue @ successors E u))"
  by pat_completeness auto

lemma successors_subset: "set (successors E u) \<subseteq> snd ` set E"
  by (auto simp: successors_def)

lemma reachable_from_measure:
  assumes "u \<notin> set visited"
  shows "card ((snd ` set E \<union> set (queue @ successors E u)) - set (u # visited))
           < card ((snd ` set E \<union> set (u # queue)) - set visited)"
proof (rule psubset_card_mono)
  show "finite ((snd ` set E \<union> set (u # queue)) - set visited)" by simp
  have "u \<in> (snd ` set E \<union> set (u # queue)) - set visited" using assms by simp
  moreover have "u \<notin> (snd ` set E \<union> set (queue @ successors E u)) - set (u # visited)" by simp
  moreover have "(snd ` set E \<union> set (queue @ successors E u)) - set (u # visited)
                   \<subseteq> (snd ` set E \<union> set (u # queue)) - set visited"
    using successors_subset[of E u] by auto
  ultimately show "(snd ` set E \<union> set (queue @ successors E u)) - set (u # visited)
                     \<subset> (snd ` set E \<union> set (u # queue)) - set visited"
    by blast
qed

termination reachable_from
proof (relation "(\<lambda>(E, visited, queue). card ((snd ` set E \<union> set queue) - set visited))
                   <*mlex*> measure (\<lambda>(E, visited, queue). length queue)", goal_cases)
  case 1
  show ?case by (simp add: wf_mlex)
next
  case (2 E visited u queue)
  have "card ((snd ` set E \<union> set queue) - set visited)
          \<le> card ((snd ` set E \<union> set (u # queue)) - set visited)"
    by (rule card_mono) auto
  then show ?case by (intro mlex_leq) simp_all
next
  case (3 E visited u queue)
  then have "card ((snd ` set E \<union> set (queue @ successors E u)) - set (u # visited))
           < card ((snd ` set E \<union> set (u # queue)) - set visited)"
    by (rule reachable_from_measure)
  then show ?case by (intro mlex_less) (simp only: prod.case)
qed

declare reachable_from.simps [simp del]

definition has_path :: "digraph \<Rightarrow> string \<Rightarrow> string \<Rightarrow> nx_error + bool" where
  "has_path G s t =
     (if s \<notin> set (nodes G) then Inl (NodeNotFound s)
      else if t \<notin> set (nodes G) then Inl (NodeNotFound t)
      else Inr (t \<in> set (reachable_from (edges G) [] [s])))"

text \<open>
  Modelled from the spec: \<open>networkx.all_simple_paths\<close> and \<open>networkx.simple_cycles\<close> are
  library code outside the sources. The spec asks for the exhaustive enumeration of the
  simple paths (no repeated node) and of the elementary cycles; both are depth-first
  searches that never enter a node twice. \<open>simple_walks E accept visited u\<close> lists, in the
  order of the search, the walks that extend the reversed prefix \<open>visited\<close> from \<open>u\<close> on
  and end in a node that \<open>accept\<close> holds for.
\<close>

function simple_walks :: "('a \<times> 'a) list \<Rightarrow> ('a \<Rightarrow> bool) \<Rightarrow> 'a list \<Rightarrow> 'a \<Rightarrow> 'a list list" where
  "simple_walks E accept visited u =
     (if accept u then [rev (u # visited)] else []) @
     concat (map (\<lambda>w. simple_walks E accept (u # visited) w)
               (filter (\<lambda>w. w \<notin> set (u # visited)) (successors E u)))"
  by pat_completeness auto

lemma simple_walks_measure:
  assumes "w \<in> set (successors E u)" and "w \<notin> set (u # visited)"
  shows "card (snd ` set E - set (w # u # visited)) < card (snd ` set E - set (u # visited))"
proof (rule psubset_card_mono)
  show "finite (snd ` set E - set (u # visited))" by simp
  have "w \<in> snd ` set E" using assms(1) successors_subset[of E u] by blast
  then have "w \<in> snd ` set E - set (u # visited)" using assms(2) by simp
  moreover have "w \<notin> snd ` set E - set (w # u # visited)" by simp
  ultimately show "snd ` set E - set (w # u # visited) \<subset> snd ` set E - set (u # visited)"
    by auto
qed

termination simple_walks
proof (relation "measure (\<lambda>(E, accept, visited, u). card (snd ` set E - set (u # visited)))",
       goal_cases)
  case 1
  show ?case by simp
next
  case (2 E accept visited u w)
  then have "w \<in> set (successors E u)" and "w \<notin> set (u # visited)"
    by simp_all
  then have "card (snd ` set E - set (w # u # visited)) < card (snd ` set E - set (u # visited))"
    by (rule simple_walks_measure)
  then show ?case by (simp only: in_measure prod.case)
qed

declare simple_walks.simps [simp del]

text \<open>
  Modelled from the spec: \<open>networkx.all_simple_paths\<close>, the simple paths from the source to
  the target in the order of the search. It raises \<open>NodeNotFound\<close> for a source or a target
  outside the graph and yields nothing when the source is the target.
\<close>

definition all_simple_paths :: "digraph \<Rightarrow> string \<Rightarrow> string \<Rightarrow> nx_error + string list list" where
  "all_simple_paths G s t =
     (if s \<notin> set (nodes G) then Inl (NodeNotFound s)
      else if t \<notin> set (nodes G) then Inl (NodeNotFound t)
      else if s = t then Inr []
      else Inr (simple_walks (edges G) (\<lambda>u. u = t) [] s))"

text \<open>
  Modelled from the spec: \<open>networkx.simple_cycles\<close>. The cycles through the first node, each
  as the walk from that node to a node with an edge back to it (a self-loop is the walk
  of the node alone); then the cycles of the graph without that node. Every elementary
  cycle is listed in the rotation that starts at its first node in the order of the nodes.
\<close>

primrec cycles_search :: "'a list \<Rightarrow> ('a \<times> 'a) list \<Rightarrow> 'a list list" where
  "cycles_search [] E = []"
| "cycles_search (v # vs) E =
     simple_walks E (\<lambda>u. (u, v) \<in> set E) [] v @
     cycles_search vs (filter (\<lambda>e. fst e \<noteq> v \<and> snd e \<noteq> v) E)"

definition simple_cycles :: "digraph \<Rightarrow> string list list" where
  "simple_cycles G = cycles_search (nodes G) (edges G)"

section \<open>Graph analysis\<close>

text \<open>
  \<open>detect_circular_dependencies\<close>. The handler for \<open>NetworkXNoCycle\<close> is dead code:
  \<open>simple_cycles\<close> does not raise it.
\<close>

definition detect_circular_dependencies :: "analyzer \<Rightarrow> string list list \<times> analyzer" where
  "detect_circular_dependencies st =
     (let cycles = simple_cycles (graph st)
      in (cycles, st\<lparr>circular_dependencies := cycles\<rparr>))"

text \<open>
  The body of the inner loop of \<open>analyze_dependency_paths\<close>. \<open>NodeNotFound\<close> is not
  \<open>NetworkXNoPath\<close>, so the handler lets it through.
\<close>

definition dependency_paths_step ::
  "digraph \<Rightarrow> string \<Rightarrow> (string \<times> string list list) list \<Rightarrow> string
     \<Rightarrow> nx_error + (string \<times> string list list) list" where
  "dependency_paths_step G src paths tgt =
     (if src \<noteq> tgt
      then (case all_simple_paths G src tgt of
              Inl e \<Rightarrow> Inl e
            | Inr all_paths \<Rightarrow>
                if all_paths \<noteq> []
                then Inr (dict_set (src @ ''->'' @ tgt) all_paths paths)
                else Inr paths)
      else Inr paths)"

definition analyze_dependency_paths ::
  "analyzer \<Rightarrow> nx_error + ((string \<times> string list list) list \<times> analyzer)" where
  "analyze_dependency_paths st =
     (case for_each (\<lambda>paths src.
                       for_each (dependency_paths_step (graph st) src) paths
                         (dict_keys (modules st)))
             [] (dict_keys (modules st)) of
        Inl e \<Rightarrow> Inl e
      | Inr paths \<Rightarrow> Inr (paths, st\<lparr>dependency_paths := paths\<rparr>))"

text \<open>The body of the loop of \<open>analyze_impact\<close>.\<close>

definition impact_step :: "digraph \<Rightarrow> string \<Rightarrow> string set \<Rightarrow> string \<Rightarrow> nx_error + string set" where
  "impact_step G module_name impact_set module =
     (if module \<noteq> module_name
      then (case has_path G module_name module of
              Inl e \<Rightarrow> Inl e
            | Inr b \<Rightarrow> Inr (if b then insert module impact_set else impact_set))
      else Inr impact_set)"

definition analyze_impact :: "analyzer \<Rightarrow> string \<Rightarrow> nx_error + (string set \<times> analyzer)" where
  "analyze_impact st module_name =
     (if module_name \<notin> set (dict_keys (modules st)) then Inr ({}, st)
      else (case for_each (impact_step (graph st) module_name) {} (dict_keys (modules st)) of
              Inl e \<Rightarrow> Inl e
            | Inr impact_set \<Rightarrow>
                Inr (impact_set,
                     st\<lparr>impact_analysis :=
                          dict_set module_name impact_set (impact_analysis st)\<rparr>)))"

section \<open>The report\<close>

text \<open>
  \<open>list(impact_set)\<close> lists a Python set of strings in an order that the language does
  not fix, so the affected modules stay a set in the report.
\<close>

record impact_entry =
  affected_modules :: "string set"
  impact_count :: nat

record high_impact_entry =
  hi_module :: string
  hi_impact_count :: nat
  hi_affected_modules :: "string set"

record impact_report =
  high_impact_modules :: "high_impact_entry list"
  module_impact_analysis :: "(string \<times> impact_entry) list"
  recommendations :: "string list"

text \<open>The decimal digits of a number, as an f-string prints an \<open>int\<close>.\<close>

fun str_of_nat :: "nat \<Rightarrow> string" where
  "str_of_nat n =
     (if n < 10 then [char_of (48 + n)]
      else str_of_nat (n div 10) @ [char_of (48 + n mod 10)])"

declare str_of_nat.simps [simp del]

definition recommendation :: "high_impact_entry \<Rightarrow> string" where
  "recommendation module_info =
     ''Module '' @ [CHR 0x27] @ hi_module module_info @ [CHR 0x27] @ '' has high impact ('' @
     str_of_nat (hi_impact_count module_info) @ '' affected modules). '' @
     ''Consider breaking it into smaller modules or using data sources to reduce coupling.''"

definition impact_report_step ::
  "impact_report \<times> analyzer \<Rightarrow> string \<Rightarrow> nx_error + (impact_report \<times> analyzer)" where
  "impact_report_step acc module_name =
     (case analyze_impact (snd acc) module_name of
        Inl e \<Rightarrow> Inl e
      | Inr (impact_set, st) \<Rightarrow>
          (let rep = fst acc;
               rep = rep\<lparr>module_impact_analysis :=
                       dict_set module_name
                         \<lparr>affected_modules = impact_set, impact_count = card impact_set\<rparr>
                         (module_impact_analysis rep)\<rparr>;
               rep = (if card impact_set > 3
                      then rep\<lparr>high_impact_modules := high_impact_modules rep @
                                 [\<lparr>hi_module = module_name, hi_impact_count = card impact_set,
                                   hi_affected_modules = impact_set\<rparr>]\<rparr>
                      else rep)
           in Inr (rep, st)))"

definition generate_impact_report :: "analyzer \<Rightarrow> nx_error + (impact_report \<times> analyzer)" where
  "generate_impact_report st =
     (case for_each impact_report_step
             (\<lparr>high_impact_modules = [], module_impact_analysis = [], recommendations = []\<rparr>, st)
             (dict_keys (modules st)) of
        Inl e \<Rightarrow> Inl e
      | Inr (rep, st') \<Rightarrow>
          Inr (rep\<lparr>recommendations := recommendations rep @
                      map recommendation (high_impact_modules rep)\<rparr>, st'))"

record detail_report =
  d_target_module :: string
  d_dependency_type :: string
  d_reference_path :: string
  d_file_path :: "string option"

record module_report =
  m_source :: string
  m_path :: string
  m_dependencies :: "string list"
  m_terragrunt_dependencies :: "string list"
  m_variables :: hcl_dict
  m_outputs :: "string list"
  m_data_sources :: "string list"
  m_resources :: "string list"
  m_complexity_score :: int
  m_dependency_details :: "detail_report list"

record analysis_results =
  r_modules :: "(string \<times> module_report) list"
  r_circular_dependencies :: "string list list"
  r_dependency_paths :: "(string \<times> string list list) list"
  r_impact_analysis :: impact_report
  total_modules :: nat
  total_dependencies :: nat
  high_complexity :: "string list"
  medium_complexity :: "string list"
  low_complexity :: "string list"

definition report_module :: "ModuleInfo \<Rightarrow> module_report" where
  "report_module info =
     \<lparr>m_source = source info, m_path = path info, m_dependencies = dependencies info,
      m_terragrunt_dependencies = terragrunt_dependencies info,
      m_variables = variables info, m_outputs = outputs info,
      m_data_sources = data_sources info, m_resources = resources info,
      m_complexity_score = complexity_score info,
      m_dependency_details =
        map (\<lambda>dep. \<lparr>d_target_module = target_module dep,
                     d_dependency_type = dependency_type dep,
                     d_reference_path = reference_path dep,
                     d_file_path = file_path dep\<rparr>) (dependency_details info)\<rparr>"

section \<open>The complete analysis\<close>

text \<open>The first loop of \<open>analyze\<close>, over the terragrunt files.\<close>

definition parse_terragrunt_files :: "analyzer \<Rightarrow> terragrunt_doc config_file list \<Rightarrow> analyzer" where
  "parse_terragrunt_files st files =
     foldl (\<lambda>st f.
              case parse_terragrunt_file f (error_log st) of
                (None, lg) \<Rightarrow> st\<lparr>error_log := lg\<rparr>
              | (Some module_info, lg) \<Rightarrow>
                  st\<lparr>modules := dict_set (name module_info) module_info (modules st),
                     error_log := lg\<rparr>)
       st files"

definition parse_terraform_files :: "analyzer \<Rightarrow> terraform_doc config_file list \<Rightarrow> analyzer" where
  "parse_terraform_files st files =
     foldl (\<lambda>st f.
              case cf_parsed f of
                None \<Rightarrow> st\<lparr>error_log := error_log st @ [path_str (cf_path f)]\<rparr>
              | Some parsed \<Rightarrow>
                  st\<lparr>modules := parse_terraform_doc (cf_path f) parsed (modules st)\<rparr>)
       st files"

text \<open>
  The rest of \<open>analyze\<close>, from \<open>build_dependency_graph\<close> on: the graph, the cycles,
  the paths, the impact report and the results. \<open>analyze\<close> returns the results; the
  model returns the analyzer after the run with them.
\<close>

definition analyze_registry :: "analyzer \<Rightarrow> nx_error + (analysis_results \<times> analyzer)" where
  "analyze_registry st =
     (let st = build_dependency_graph st;
          (cycles, st) = detect_circular_dependencies st
      in case analyze_dependency_paths st of
           Inl e \<Rightarrow> Inl e
         | Inr (paths, st) \<Rightarrow>
             (case generate_impact_report st of
                Inl e \<Rightarrow> Inl e
              | Inr (impact_report, st) \<Rightarrow>
                  Inr (\<lparr>r_modules = map (\<lambda>(name, info). (name, report_module info)) (modules st),
                        r_circular_dependencies = cycles,
                        r_dependency_paths = paths,
                        r_impact_analysis = impact_report,
                        total_modules = length (modules st),
                        total_dependencies = length (edges (graph st)),
                        high_complexity =
                          map fst (filter (\<lambda>(name, info). complexity_score info > 10) (modules st)),
                        medium_complexity =
                          map fst (filter (\<lambda>(name, info). 5 < complexity_score info
                                                          \<and> complexity_score info \<le> 10) (modules st)),
                        low_complexity =
                          map fst (filter (\<lambda>(name, info). complexity_score info \<le> 5) (modules st))\<rparr>,
                       st)))"

text \<open>\<open>analyze\<close>, on the files that \<open>find_configuration_files\<close> has found.\<close>

definition analyze ::
  "analyzer \<Rightarrow> terragrunt_doc config_file list \<Rightarrow> terraform_doc config_file list
     \<Rightarrow> nx_error + (analysis_results \<times> analyzer)" where
  "analyze self terragrunt_files terraform_files =
     (let st = parse_terragrunt_files self terragrunt_files;
          st = parse_terraform_files st terraform_files
      in analyze_registry st)"

section \<open>Notions the properties are stated with\<close>

text \<open>A graph over the node set \<open>K\<close>: its nodes are \<open>K\<close>, its edges join nodes, none twice.\<close>

definition graph_over :: "string set \<Rightarrow> digraph \<Rightarrow> bool" where
  "graph_over K G = (set (nodes G) = K \<and> set (edges G) \<subseteq> K \<times> K \<and> distinct (edges G))"

text \<open>
  The graph of the analyzer is the one that \<open>build_dependency_graph\<close> makes of its registry,
  starting from the empty graph of a new analyzer.
\<close>

definition graph_built :: "analyzer \<Rightarrow> bool" where
  "graph_built st = (graph st = graph (build_dependency_graph (st\<lparr>graph := empty_digraph\<rparr>)))"

text \<open>
  A simple path: a non-empty sequence of distinct nodes with an edge from each to the
  next. An elementary cycle: a simple path with an edge from its last node to its first.
\<close>

definition simple_path :: "('a \<times> 'a) list \<Rightarrow> 'a list \<Rightarrow> bool" where
  "simple_path E p = (p \<noteq> [] \<and> distinct p \<and> successively (\<lambda>a b. (a, b) \<in> set E) p)"

definition elementary_cycle :: "('a \<times> 'a) list \<Rightarrow> 'a list \<Rightarrow> bool" where
  "elementary_cycle E c = (simple_path E c \<and> (last c, hd c) \<in> set E)"


text \<open>
  Every entry of the two dependency lists of a descriptor has a record in its details,
  from the module, with the type of the idiom.
\<close>

definition refs_recorded :: "ModuleInfo \<Rightarrow> bool" where
  "refs_recorded mi =
     ((\<forall>d\<in>set (dependencies mi). \<exists>r\<in>set (dependency_details mi).
          source_module r = name mi \<and> target_module r = d
          \<and> (dependency_type r = ''module_output'' \<or> dependency_type r = ''module_reference''))
      \<and> (\<forall>d\<in>set (terragrunt_dependencies mi). \<exists>r\<in>set (dependency_details mi).
          source_module r = name mi \<and> target_module r = d
          \<and> dependency_type r = ''terragrunt''))"


section \<open>Example inputs\<close>

text \<open>Two modules, \<open>B\<close> referring to an output of \<open>A\<close>.\<close>

definition chain_registry :: registry where
  "chain_registry =
     [(''A'', new_ModuleInfo ''A'' [] ''live/A''),
      (''B'', (new_ModuleInfo ''B'' [] ''live/B'')\<lparr>dependencies := [''A'']\<rparr>)]"

text \<open>Three modules in a ring: \<open>A\<close> needs \<open>C\<close>, \<open>B\<close> needs \<open>A\<close>, \<open>C\<close> needs \<open>B\<close>.\<close>

definition ring_registry :: registry where
  "ring_registry =
     [(''A'', (new_ModuleInfo ''A'' [] ''live/A'')\<lparr>dependencies := [''C'']\<rparr>),
      (''B'', (new_ModuleInfo ''B'' [] ''live/B'')\<lparr>dependencies := [''A'']\<rparr>),
      (''C'', (new_ModuleInfo ''C'' [] ''live/C'')\<lparr>terragrunt_dependencies := [''B'']\<rparr>)]"

text \<open>
  A terragrunt file \<open>live/net/<dir>/terragrunt.hcl\<close> with the given dependency blocks and
  inputs, and no \<open>terraform\<close> block.
\<close>

definition tg_path :: "string \<Rightarrow> py_path" where
  "tg_path dir =
     \<lparr>path_str = ''live/net/'' @ dir @ ''/terragrunt.hcl'', parent_str = ''live/net/'' @ dir,
      parent_name = dir\<rparr>"

definition tg_file ::
  "string \<Rightarrow> (string \<times> string option) list list \<Rightarrow> hcl_dict option \<Rightarrow> terragrunt_doc config_file" where
  "tg_file dir deps inputs =
     \<lparr>cf_path = tg_path dir,
      cf_parsed = Some \<lparr>tg_source = None, tg_dependency = deps, tg_inputs = inputs\<rparr>\<rparr>"


text \<open>Four module directories, two of them with an arrow in the name.\<close>

definition arrow_files :: "terragrunt_doc config_file list" where
  "arrow_files =
     [tg_file ''a'' [] None,
      tg_file ''b->c'' [] None,
      tg_file ''a->b'' [] None,
      tg_file ''c'' [[(''upstream'', Some ''../../net/a->b'')]] None]"



text \<open>
  A \<open>main.tf\<close> with a module block \<open>web\<close> that reads an output of the module \<open>vpc\<close>, and an
  output block that reads it too.
\<close>

definition vpc_web_tf :: "terraform_doc config_file" where
  "vpc_web_tf =
     \<lparr>cf_path = \<lparr>path_str = ''live/main.tf'', parent_str = ''live'', parent_name = ''live''\<rparr>,
      cf_parsed = Some
        \<lparr>tf_module =
           [[(''web'', \<lparr>mc_source = Some ''./web'', mc_variables = None,
                       mc_str = ''{'source': './web', 'vpc_id': '${module.vpc.id}'}''\<rparr>)]],
         tf_data = [],
         tf_output = [[(''vpc_id'', Some ''${module.vpc.id}'')]],
         tf_resource = []\<rparr>\<rparr>"

text \<open>A terragrunt module \<open>app\<close> whose dependency block points at its own directory.\<close>

definition self_dependency_file :: "terragrunt_doc config_file" where
  "self_dependency_file = tg_file ''app'' [[(''app'', Some ''../../net/app'')]] None"



section \<open>Properties of the complexity score\<close>

text \<open>
  C8. The score is strictly monotone in coupling: appending one element to the direct
  dependencies, to the terragrunt (external) dependencies or to the data sources of a
  module descriptor, all other fields unchanged, strictly increases the score.
\<close>

theorem complexity_score_strictly_monotone:
  "calculate_complexity_score m
     < calculate_complexity_score (m\<lparr>dependencies := dependencies m @ [d]\<rparr>)
   \<and> calculate_complexity_score m
     < calculate_complexity_score (m\<lparr>terragrunt_dependencies := terragrunt_dependencies m @ [d]\<rparr>)
   \<and> calculate_complexity_score m
     < calculate_complexity_score (m\<lparr>data_sources := data_sources m @ [d]\<rparr>)"
  by (simp add: calculate_complexity_score_def Let_def)

section \<open>Registry and graph invariants\<close>

lemma foldl_invariant:
  assumes "P s" and "\<And>s x. P s \<Longrightarrow> x \<in> set xs \<Longrightarrow> P (f s x)"
  shows "P (foldl f s xs)"
  using assms by (induction xs arbitrary: s) auto

lemma dict_keys_dict_set: "set (dict_keys (dict_set k v d)) = insert k (set (dict_keys d))"
proof (induction d)
  case Nil
  show ?case by (simp add: dict_keys_def)
next
  case (Cons a d)
  obtain k' v' where a: "a = (k', v')" by (cases a)
  show ?case using Cons unfolding a dict_keys_def by (cases "k' = k") auto
qed

lemma distinct_dict_set: "distinct (dict_keys d) \<Longrightarrow> distinct (dict_keys (dict_set k v d))"
proof (induction d)
  case Nil
  then show ?case by (simp add: dict_keys_def)
next
  case (Cons a d)
  obtain k' v' where a: "a = (k', v')" by (cases a)
  have "set (dict_keys (dict_set k v d)) = insert k (set (dict_keys d))"
    by (rule dict_keys_dict_set)
  then show ?case using Cons a by (auto simp: dict_keys_def)
qed

lemma dict_keys_dict_modify: "dict_keys (dict_modify k f d) = dict_keys d"
  by (induction d) (auto simp: dict_keys_def dict_modify_def)

lemma dict_keys_add_entity_ref: "dict_keys (add_entity_ref src ty fp mods grp) = dict_keys mods"
  by (cases "(src, ty, fp, mods, grp)" rule: add_entity_ref.cases) (auto simp: dict_keys_dict_modify)

lemma dict_keys_add_output_ref: "dict_keys (add_output_ref mods grp) = dict_keys mods"
  by (cases "(mods, grp)" rule: add_output_ref.cases) (auto simp: dict_keys_dict_modify)

lemma dict_keys_analyze_data_source_dependencies:
  "dict_keys (analyze_data_source_dependencies mods n c fp) = dict_keys mods"
  unfolding analyze_data_source_dependencies_def
  by (rule foldl_invariant) (simp_all add: dict_keys_add_entity_ref)

lemma dict_keys_analyze_resource_dependencies:
  "dict_keys (analyze_resource_dependencies mods n c fp) = dict_keys mods"
  unfolding analyze_resource_dependencies_def
  by (rule foldl_invariant) (simp_all add: dict_keys_add_entity_ref)

lemma dict_keys_analyze_output_dependencies:
  "dict_keys (analyze_output_dependencies mods v fp) = dict_keys mods"
  unfolding analyze_output_dependencies_def
  by (rule foldl_invariant) (simp_all add: dict_keys_add_output_ref)

lemma distinct_parse_module_block:
  "distinct (dict_keys mods) \<Longrightarrow> distinct (dict_keys (parse_module_block fp mods blk))"
  by (simp add: parse_module_block_def Let_def distinct_dict_set)

lemma distinct_parse_terraform_doc:
  assumes "distinct (dict_keys mods)"
  shows "distinct (dict_keys (parse_terraform_doc fp parsed mods))"
proof -
  let ?P = "\<lambda>ms. distinct (dict_keys ms)"
  define m1 where "m1 = foldl (\<lambda>ms module_block. foldl (parse_module_block fp) ms module_block)
                   mods (tf_module parsed)"
  have 1: "?P m1" unfolding m1_def
    by (intro foldl_invariant[where P="?P"] assms distinct_parse_module_block)
  define m2 where "m2 = foldl (\<lambda>ms data_block.
                    foldl (\<lambda>ms' (data_name, data_config).
                             analyze_data_source_dependencies ms' data_name data_config
                               (path_str fp)) ms data_block)
                   m1 (tf_data parsed)"
  have 2: "?P m2" unfolding m2_def
    by (intro foldl_invariant[where P="?P"] 1)
       (auto simp: dict_keys_analyze_data_source_dependencies)
  define m3 where "m3 = foldl (\<lambda>ms output_block.
                    foldl (\<lambda>ms' (output_name, output_value).
                             case output_value of
                               None \<Rightarrow> ms'
                             | Some v \<Rightarrow> analyze_output_dependencies ms' v (path_str fp))
                          ms output_block)
                   m2 (tf_output parsed)"
  have 3: "?P m3" unfolding m3_def
    by (intro foldl_invariant[where P="?P"] 2)
       (auto simp: dict_keys_analyze_output_dependencies split: option.splits)
  define m4 where "m4 = foldl (\<lambda>ms resource_block.
                    foldl (\<lambda>ms' (resource_type, resource_config).
                             analyze_resource_dependencies ms' resource_type resource_config
                               (path_str fp)) ms resource_block)
                   m3 (tf_resource parsed)"
  have 4: "?P m4" unfolding m4_def
    by (intro foldl_invariant[where P="?P"] 3)
       (auto simp: dict_keys_analyze_resource_dependencies)
  show ?thesis
    using 4 unfolding parse_terraform_doc_def Let_def m4_def m3_def m2_def m1_def .
qed

lemma distinct_parse_terragrunt_files:
  "distinct (dict_keys (modules st)) \<Longrightarrow> distinct (dict_keys (modules (parse_terragrunt_files st fs)))"
  unfolding parse_terragrunt_files_def
  by (rule foldl_invariant[where P="\<lambda>s. distinct (dict_keys (modules s))"])
     (auto simp: distinct_dict_set split: prod.splits option.splits)

lemma distinct_parse_terraform_files:
  "distinct (dict_keys (modules st)) \<Longrightarrow> distinct (dict_keys (modules (parse_terraform_files st fs)))"
  unfolding parse_terraform_files_def
  by (rule foldl_invariant[where P="\<lambda>s. distinct (dict_keys (modules s))"])
     (auto simp: distinct_parse_terraform_doc split: option.splits)

section \<open>The built graph\<close>

lemma nodes_add_node: "set (nodes (add_node n G)) = insert n (set (nodes G))"
  by (auto simp: add_node_def)

lemma edges_add_node: "edges (add_node n G) = edges G"
  by (simp add: add_node_def)

lemma nodes_add_edge: "set (nodes (add_edge u v G)) = insert u (insert v (set (nodes G)))"
  by (auto simp: add_edge_def Let_def nodes_add_node)

lemma edges_add_edge: "set (edges (add_edge u v G)) = insert (u, v) (set (edges G))"
  by (auto simp: add_edge_def Let_def edges_add_node)

lemma distinct_edges_add_edge: "distinct (edges G) \<Longrightarrow> distinct (edges (add_edge u v G))"
  by (auto simp: add_edge_def Let_def edges_add_node)

lemma graph_over_add_dependency_edge:
  assumes "graph_over (set (dict_keys mods)) G" and "n \<in> set (dict_keys mods)"
  shows "graph_over (set (dict_keys mods)) (add_dependency_edge mods n G dep)"
  using assms
  by (auto simp: graph_over_def add_dependency_edge_def nodes_add_edge edges_add_edge
        distinct_edges_add_edge)

lemma nodes_foldl_add_node:
  "set (nodes (foldl (\<lambda>G (module_name, module_info). add_node module_name G) G ms))
     = set (nodes G) \<union> set (dict_keys ms)"
  by (induction ms arbitrary: G) (auto simp: nodes_add_node dict_keys_def)

lemma edges_foldl_add_node:
  "edges (foldl (\<lambda>G (module_name, module_info). add_node module_name G) G ms) = edges G"
  by (induction ms arbitrary: G) (auto simp: edges_add_node)

lemma graph_over_build:
  assumes "graph st = empty_digraph"
  shows "graph_over (set (dict_keys (modules st))) (graph (build_dependency_graph st))"
proof -
  let ?K = "set (dict_keys (modules st))"
  define G0 where "G0 = foldl (\<lambda>G (module_name, module_info). add_node module_name G)
                (graph st) (modules st)"
  have G0: "graph_over ?K G0"
    unfolding G0_def graph_over_def
    by (simp add: nodes_foldl_add_node edges_foldl_add_node assms empty_digraph_def)
  have step: "graph_over ?K
                (foldl (add_dependency_edge (modules st) n)
                   (foldl (add_dependency_edge (modules st) n) G (dependencies mi))
                   (terragrunt_dependencies mi))"
    if "graph_over ?K G" and "(n, mi) \<in> set (modules st)" for G n mi
  proof -
    have n: "n \<in> ?K" using that(2) by (force simp: dict_keys_def)
    have a: "graph_over ?K (foldl (add_dependency_edge (modules st) n) G (dependencies mi))"
      by (rule foldl_invariant[where P="graph_over ?K", OF that(1)])
         (rule graph_over_add_dependency_edge[OF _ n])
    show ?thesis
      by (rule foldl_invariant[where P="graph_over ?K", OF a])
         (rule graph_over_add_dependency_edge[OF _ n])
  qed
  have "graph_over ?K (foldl (\<lambda>G (module_name, module_info).
                 (let G = foldl (add_dependency_edge (modules st) module_name) G
                            (dependencies module_info);
                      G = foldl (add_dependency_edge (modules st) module_name) G
                            (terragrunt_dependencies module_info)
                  in G)) G0 (modules st))"
    by (rule foldl_invariant[where P="graph_over ?K"]) (auto simp: Let_def intro: G0 step)
  then show ?thesis
    by (simp add: build_dependency_graph_def Let_def G0_def)
qed

lemma modules_build [simp]: "modules (build_dependency_graph st) = modules st"
  by (simp add: build_dependency_graph_def Let_def)

section \<open>Breadth-first search computes reachability\<close>

lemma set_successors: "set (successors E u) = set E `` {u}"
  by (force simp: successors_def)

lemma reachable_from_sound:
  "set (reachable_from E visited queue) \<subseteq> set visited \<union> (set E)\<^sup>* `` set queue"
proof (induction E visited queue rule: reachable_from.induct)
  case (1 E visited)
  then show ?case by (simp add: reachable_from.simps)
next
  case (2 E visited u queue)
  show ?case
  proof (cases "u \<in> set visited")
    case True
    then show ?thesis using 2 by (auto simp: reachable_from.simps)
  next
    case False
    have "set (successors E u) \<subseteq> (set E)\<^sup>* `` {u}"
      by (auto simp: set_successors)
    then have a: "(set E)\<^sup>* `` set (queue @ successors E u) \<subseteq> (set E)\<^sup>* `` set (u # queue)"
      by (auto intro: rtrancl_trans)
    have b: "u \<in> (set E)\<^sup>* `` set (u # queue)" by auto
    have "set (reachable_from E (u # visited) (queue @ successors E u))
            \<subseteq> set (u # visited) \<union> (set E)\<^sup>* `` set (queue @ successors E u)"
      using 2(2)[OF False] .
    also have "\<dots> \<subseteq> set visited \<union> (set E)\<^sup>* `` set (u # queue)"
      using a b by (simp del: set_append) blast
    finally show ?thesis using False by (simp add: reachable_from.simps)
  qed
qed

lemma reachable_from_closed:
  assumes "set E `` set visited \<subseteq> set visited \<union> set queue"
  shows "set visited \<union> set queue \<subseteq> set (reachable_from E visited queue)
         \<and> set E `` set (reachable_from E visited queue) \<subseteq> set (reachable_from E visited queue)"
  using assms
proof (induction E visited queue rule: reachable_from.induct)
  case (1 E visited)
  then show ?case by (simp add: reachable_from.simps)
next
  case (2 E visited u queue)
  show ?case
  proof (cases "u \<in> set visited")
    case True
    then have "set E `` set visited \<subseteq> set visited \<union> set queue"
      using 2(3) by auto
    then show ?thesis using 2(1)[OF True] True by (auto simp: reachable_from.simps)
  next
    case False
    have "set E `` set (u # visited) \<subseteq> set (u # visited) \<union> set (queue @ successors E u)"
      using 2(3) by (auto simp: set_successors)
    then show ?thesis using 2(2)[OF False] False by (auto simp: reachable_from.simps)
  qed
qed

lemma reachable_from_rtrancl: "set (reachable_from E [] [s]) = (set E)\<^sup>* `` {s}"
proof
  show "set (reachable_from E [] [s]) \<subseteq> (set E)\<^sup>* `` {s}"
    using reachable_from_sound[of E "[]" "[s]"] by simp
next
  let ?R = "set (reachable_from E [] [s])"
  have c: "s \<in> ?R" "set E `` ?R \<subseteq> ?R"
    using reachable_from_closed[of E "[]" "[s]"] by auto
  have "v \<in> ?R" if "(s, v) \<in> (set E)\<^sup>*" for v
    using that by (induction rule: rtrancl_induct) (use c in auto)
  then show "(set E)\<^sup>* `` {s} \<subseteq> ?R" by auto
qed

section \<open>Impact analysis\<close>

lemma graph_built_graph_over:
  "graph_built st \<Longrightarrow> graph_over (set (dict_keys (modules st))) (graph st)"
  using graph_over_build[of "st\<lparr>graph := empty_digraph\<rparr>"]
  by (simp add: graph_built_def)

lemma graph_built_build:
  "graph st = empty_digraph \<Longrightarrow> graph_built (build_dependency_graph st)"
  by (simp add: graph_built_def build_dependency_graph_def Let_def)

lemma has_path_rtrancl:
  assumes "s \<in> set (nodes G)" and "t \<in> set (nodes G)"
  shows "has_path G s t = Inr ((s, t) \<in> (set (edges G))\<^sup>*)"
  using assms by (simp add: has_path_def reachable_from_rtrancl)

lemma for_each_impact_step:
  assumes "s \<in> set (nodes G)" and "set ks \<subseteq> set (nodes G)"
  shows "for_each (impact_step G s) S ks
           = Inr (S \<union> {m \<in> set ks. m \<noteq> s \<and> (s, m) \<in> (set (edges G))\<^sup>*})"
  using assms(2)
proof (induction ks arbitrary: S)
  case Nil
  then show ?case by simp
next
  case (Cons k ks)
  have k: "k \<in> set (nodes G)" and ks: "set ks \<subseteq> set (nodes G)"
    using Cons.prems by auto
  have step: "impact_step G s S k
                = Inr (if k \<noteq> s \<and> (s, k) \<in> (set (edges G))\<^sup>* then insert k S else S)"
    by (simp add: impact_step_def has_path_rtrancl[OF assms(1) k])
  show ?case
    by (simp add: step Cons.IH[OF ks]) blast
qed

lemma reachable_in_nodes:
  assumes "graph_over K G" and "(s, m) \<in> (set (edges G))\<^sup>*" and "m \<noteq> s"
  shows "m \<in> K"
  using assms(2,1,3)
  by (cases rule: rtranclE) (auto simp: graph_over_def)

text \<open>
  C1. For a module \<open>M\<close> of the registry, on the built graph, \<open>analyze_impact\<close> returns
  exactly the set of the modules other than \<open>M\<close> that are reachable from \<open>M\<close> along the
  edges of the graph (and stores it under \<open>M\<close>); \<open>M\<close> itself is never in it.
\<close>

theorem analyze_impact_reachable:
  assumes "graph_built st" and "M \<in> set (dict_keys (modules st))"
  shows "(let S = {m. m \<noteq> M \<and> (M, m) \<in> (set (edges (graph st)))\<^sup>*}
          in analyze_impact st M
               = Inr (S, st\<lparr>impact_analysis := dict_set M S (impact_analysis st)\<rparr>)
             \<and> M \<notin> S)"
proof -
  let ?K = "set (dict_keys (modules st))"
  have go: "graph_over ?K (graph st)"
    by (rule graph_built_graph_over[OF assms(1)])
  then have nodes: "set (nodes (graph st)) = ?K"
    by (simp add: graph_over_def)
  have "{m \<in> ?K. m \<noteq> M \<and> (M, m) \<in> (set (edges (graph st)))\<^sup>*}
          = {m. m \<noteq> M \<and> (M, m) \<in> (set (edges (graph st)))\<^sup>*}"
    using reachable_in_nodes[OF go] by blast
  then have "for_each (impact_step (graph st) M) {} (dict_keys (modules st))
          = Inr {m. m \<noteq> M \<and> (M, m) \<in> (set (edges (graph st)))\<^sup>*}"
    using for_each_impact_step[of M "graph st" "dict_keys (modules st)" "{}"] assms(2) nodes
    by simp
  then show ?thesis
    using assms(2) by (simp add: analyze_impact_def Let_def)
qed

text \<open>The chain of two modules: changing \<open>A\<close> affects \<open>B\<close>.\<close>

theorem analyze_impact_reachable_witness:
  "graph_built (build_dependency_graph (new_analyzer\<lparr>modules := chain_registry\<rparr>))
   \<and> ''A'' \<in> set (dict_keys (modules (build_dependency_graph (new_analyzer\<lparr>modules := chain_registry\<rparr>))))
   \<and> (\<exists>st'. analyze_impact (build_dependency_graph (new_analyzer\<lparr>modules := chain_registry\<rparr>)) ''A''
          = Inr ({''B''}, st'))"
proof -
  let ?st = "build_dependency_graph (new_analyzer\<lparr>modules := chain_registry\<rparr>)"
  have b: "graph_built ?st"
    by (rule graph_built_build) (simp add: new_analyzer_def)
  have k: "''A'' \<in> set (dict_keys (modules ?st))"
    by (simp add: chain_registry_def dict_keys_def)
  have e: "edges (graph ?st) = [(''A'', ''B'')]"
    by (simp add: build_dependency_graph_def new_analyzer_def chain_registry_def new_ModuleInfo_def
     add_dependency_edge_def add_edge_def add_node_def empty_digraph_def dict_keys_def Let_def)
  have r: "{m. m \<noteq> ''A'' \<and> (''A'', m) \<in> (set [(''A'', ''B'')])\<^sup>*} = {''B''}"
    by (auto elim: rtranclE converse_rtranclE)
  show ?thesis
    using analyze_impact_reachable[OF b k] b k unfolding Let_def e r by blast
qed

section \<open>The depth-first enumeration lists exactly the simple paths\<close>

lemma simple_path_Cons:
  "simple_path E (u # q) \<longleftrightarrow>
     (q = [] \<or> (simple_path E q \<and> (u, hd q) \<in> set E \<and> u \<notin> set q))"
  by (cases q) (auto simp: simple_path_def)

lemma simple_walks_sound:
  "u \<notin> set visited \<Longrightarrow> w \<in> set (simple_walks E accept visited u) \<Longrightarrow>
   \<exists>p. w = rev visited @ p \<and> simple_path E p \<and> hd p = u
              \<and> set p \<inter> set visited = {} \<and> accept (last p)"
proof (induction E accept visited u arbitrary: w rule: simple_walks.induct)
  case (1 E accept visited u)
  from "1.prems"(2) consider
      (here) "accept u" "w = rev (u # visited)"
    | (deeper) v where "v \<in> set (successors E u)" "v \<notin> set (u # visited)"
               "w \<in> set (simple_walks E accept (u # visited) v)"
    by (subst (asm) simple_walks.simps) (auto split: if_splits)
  then show ?case
  proof cases
    case here
    then show ?thesis using "1.prems"(1)
      by (intro exI[of _ "[u]"]) (simp add: simple_path_def)
  next
    case deeper
    have "v \<in> set (filter (\<lambda>w. w \<notin> set (u # visited)) (successors E u))"
      using deeper by simp
    from "1.IH"[OF this deeper(2) deeper(3)]
    obtain q where q: "w = rev (u # visited) @ q" "simple_path E q" "hd q = v"
      "set q \<inter> set (u # visited) = {}" "accept (last q)"
      by blast
    have qne: "q \<noteq> []" using q(2) by (simp add: simple_path_def)
    have e: "(u, v) \<in> set E" using deeper(1) by (auto simp: successors_def)
    have "simple_path E (u # q)"
      using q qne e by (auto simp: simple_path_Cons)
    moreover have "set (u # q) \<inter> set visited = {}"
      using q(4) "1.prems"(1) by auto
    moreover have "last (u # q) = last q" using qne by simp
    ultimately show ?thesis
      using q(1,5) by (intro exI[of _ "u # q"]) simp
  qed
qed

lemma simple_walks_complete:
  "simple_path E p \<Longrightarrow> hd p = u \<Longrightarrow> set p \<inter> set visited = {} \<Longrightarrow> accept (last p) \<Longrightarrow>
   rev visited @ p \<in> set (simple_walks E accept visited u)"
proof (induction E accept visited u arbitrary: p rule: simple_walks.induct)
  case (1 E accept visited u)
  from "1.prems"(1,2) obtain q where p: "p = u # q"
    by (cases p) (auto simp: simple_path_def)
  show ?case
  proof (cases q)
    case Nil
    then show ?thesis using "1.prems"(4) p
      by (subst simple_walks.simps) simp
  next
    case (Cons v q')
    have sp: "simple_path E q" "(u, v) \<in> set E" "u \<notin> set q"
      using "1.prems"(1) p Cons by (auto simp: simple_path_Cons)
    have v: "v \<in> set (filter (\<lambda>w. w \<notin> set (u # visited)) (successors E u))"
      using sp(2,3) "1.prems"(3) p Cons by (force simp: successors_def)
    have "rev (u # visited) @ q \<in> set (simple_walks E accept (u # visited) v)"
    proof (rule "1.IH"[OF v sp(1)])
      show "hd q = v" using Cons by simp
      show "set q \<inter> set (u # visited) = {}" using sp(3) "1.prems"(3) p by auto
      show "accept (last q)" using "1.prems"(4) p Cons by simp
    qed
    then show ?thesis using v p
      by (subst simple_walks.simps) auto
  qed
qed

lemma set_simple_walks:
  "set (simple_walks E accept [] u)
     = {p. simple_path E p \<and> hd p = u \<and> accept (last p)}"
proof (intro set_eqI iffI)
  fix w assume "w \<in> set (simple_walks E accept [] u)"
  from simple_walks_sound[OF _ this]
  show "w \<in> {p. simple_path E p \<and> hd p = u \<and> accept (last p)}" by auto
next
  fix w assume "w \<in> {p. simple_path E p \<and> hd p = u \<and> accept (last p)}"
  then have "rev [] @ w \<in> set (simple_walks E accept [] u)"
    by (intro simple_walks_complete) auto
  then show "w \<in> set (simple_walks E accept [] u)" by simp
qed

lemma distinct_concat_map:
  assumes "distinct vs" and "\<And>v. v \<in> set vs \<Longrightarrow> distinct (f v)"
    and "\<And>v v'. v \<in> set vs \<Longrightarrow> v' \<in> set vs \<Longrightarrow> v \<noteq> v' \<Longrightarrow> set (f v) \<inter> set (f v') = {}"
  shows "distinct (concat (map f vs))"
  using assms
proof (induction vs)
  case Nil
  then show ?case by simp
next
  case (Cons a vs)
  have "distinct (concat (map f vs))"
    by (rule Cons.IH) (use Cons.prems in auto)
  moreover have "distinct (f a)" using Cons.prems(2) by simp
  moreover have "set (f a) \<inter> set (f v) = {}" if "v \<in> set vs" for v
    using Cons.prems(3)[of a v] Cons.prems(1) that by auto
  ultimately show ?case by auto
qed

lemma distinct_successors: "distinct E \<Longrightarrow> distinct (successors E u)"
  unfolding successors_def
  by (rule iffD2[OF distinct_map]) (auto simp: inj_on_def)

lemma distinct_simple_walks:
  "distinct E \<Longrightarrow> u \<notin> set visited \<Longrightarrow> distinct (simple_walks E accept visited u)"
proof (induction E accept visited u rule: simple_walks.induct)
  case (1 E accept visited u)
  let ?vs = "filter (\<lambda>w. w \<notin> set (u # visited)) (successors E u)"
  let ?f = "\<lambda>w. simple_walks E accept (u # visited) w"
  have shape: "\<exists>q. w = rev (u # visited) @ v # q"
    if "v \<in> set ?vs" "w \<in> set (?f v)" for v w
  proof -
    from simple_walks_sound[OF _ that(2)] that(1)
    obtain p where "w = rev (u # visited) @ p" "simple_path E p" "hd p = v" by auto
    then show ?thesis by (cases p) (auto simp: simple_path_def)
  qed
  have d: "distinct (concat (map ?f ?vs))"
  proof (rule distinct_concat_map)
    show "distinct ?vs" using "1.prems"(1) by (simp add: distinct_successors)
    show "distinct (?f v)" if "v \<in> set ?vs" for v
      using "1.IH"[OF that "1.prems"(1)] that by simp
    show "set (?f v) \<inter> set (?f v') = {}" if "v \<in> set ?vs" "v' \<in> set ?vs" "v \<noteq> v'" for v v'
    proof (rule ccontr)
      assume "set (?f v) \<inter> set (?f v') \<noteq> {}"
      then obtain w where "w \<in> set (?f v)" "w \<in> set (?f v')" by auto
      with shape[OF that(1)] shape[OF that(2)] that(3) show False by auto
    qed
  qed
  have "rev (u # visited) \<notin> set (concat (map ?f ?vs))"
  proof
    assume "rev (u # visited) \<in> set (concat (map ?f ?vs))"
    then obtain v where "v \<in> set ?vs" "rev (u # visited) \<in> set (?f v)" by auto
    from shape[OF this] show False by simp
  qed
  with d show ?case
    by (subst simple_walks.simps) simp
qed

lemma all_simple_paths_correct:
  assumes "s \<in> set (nodes G)" and "t \<in> set (nodes G)" and "s \<noteq> t"
  shows "all_simple_paths G s t = Inr (simple_walks (edges G) (\<lambda>u. u = t) [] s)"
    and "set (simple_walks (edges G) (\<lambda>u. u = t) [] s)
           = {p. simple_path (edges G) p \<and> hd p = s \<and> last p = t}"
  using assms by (simp_all add: all_simple_paths_def set_simple_walks)

section \<open>Cycles\<close>

lemma elementary_cycle_rotate1:
  assumes "elementary_cycle E c"
  shows "elementary_cycle E (rotate1 c)"
proof (cases c)
  case Nil
  then show ?thesis using assms by simp
next
  case (Cons x xs)
  show ?thesis
  proof (cases "xs = []")
    case True
    then show ?thesis using assms Cons by simp
  next
    case False
    let ?P = "\<lambda>a b. (a, b) \<in> set E"
    have s: "successively ?P xs" "?P x (hd xs)" "?P (last xs) x" "distinct (x # xs)"
      using assms Cons False
      by (auto simp: elementary_cycle_def simple_path_def successively_Cons)
    have "successively ?P (xs @ [x])"
      using s(1,3) False by (simp add: successively_append_iff)
    moreover have "distinct (xs @ [x])" using s(4) by auto
    moreover have "last (xs @ [x]) = x" "hd (xs @ [x]) = hd xs" using False by auto
    ultimately show ?thesis
      using s(2) Cons by (simp add: elementary_cycle_def simple_path_def)
  qed
qed

lemma elementary_cycle_rotate:
  "elementary_cycle E c \<Longrightarrow> elementary_cycle E (rotate n c)"
  by (induction n) (auto simp: elementary_cycle_rotate1)

lemma successively_mono_set:
  assumes "successively P xs" and "\<And>a b. a \<in> set xs \<Longrightarrow> b \<in> set xs \<Longrightarrow> P a b \<Longrightarrow> Q a b"
  shows "successively Q xs"
  using assms
  by (induction xs rule: induct_list012) auto

lemma elementary_cycle_remove_node:
  assumes "elementary_cycle E c" and "v \<notin> set c"
  shows "elementary_cycle (filter (\<lambda>e. fst e \<noteq> v \<and> snd e \<noteq> v) E) c"
proof -
  have ne: "c \<noteq> []" using assms(1) by (simp add: elementary_cycle_def simple_path_def)
  have "successively (\<lambda>a b. (a, b) \<in> set (filter (\<lambda>e. fst e \<noteq> v \<and> snd e \<noteq> v) E)) c"
    by (rule successively_mono_set[where P="\<lambda>a b. (a, b) \<in> set E"])
       (use assms in \<open>auto simp: elementary_cycle_def simple_path_def\<close>)
  moreover have "last c \<in> set c" "hd c \<in> set c" using ne by auto
  ultimately show ?thesis
    using assms by (auto simp: elementary_cycle_def simple_path_def)
qed

lemma cycles_search_complete:
  "elementary_cycle E c \<Longrightarrow> set c \<subseteq> set vs \<Longrightarrow> \<exists>n. rotate n c \<in> set (cycles_search vs E)"
proof (induction vs arbitrary: E)
  case Nil
  then show ?case by (simp add: elementary_cycle_def simple_path_def)
next
  case (Cons v vs)
  show ?case
  proof (cases "v \<in> set c")
    case True
    then obtain xs ys where c: "c = xs @ v # ys" by (auto simp: in_set_conv_decomp)
    have r: "rotate (length xs) c = v # ys @ xs"
      by (simp add: c rotate_append)
    have "elementary_cycle E (v # ys @ xs)"
      using elementary_cycle_rotate[OF Cons.prems(1), of "length xs"] r by simp
    then have "v # ys @ xs \<in> set (simple_walks E (\<lambda>u. (u, v) \<in> set E) [] v)"
      by (simp add: set_simple_walks elementary_cycle_def)
    then have "rotate (length xs) c \<in> set (cycles_search (v # vs) E)"
      using r by simp
    then show ?thesis by blast
  next
    case False
    have "elementary_cycle (filter (\<lambda>e. fst e \<noteq> v \<and> snd e \<noteq> v) E) c"
      by (rule elementary_cycle_remove_node[OF Cons.prems(1) False])
    moreover have "set c \<subseteq> set vs" using Cons.prems(2) False by auto
    ultimately obtain n where
      "rotate n c \<in> set (cycles_search vs (filter (\<lambda>e. fst e \<noteq> v \<and> snd e \<noteq> v) E))"
      using Cons.IH by blast
    then show ?thesis by auto
  qed
qed

lemma elementary_cycle_nodes:
  assumes "elementary_cycle E c"
  shows "set c \<subseteq> fst ` set E"
proof
  fix x assume "x \<in> set c"
  then obtain xs ys where c: "c = xs @ x # ys" by (auto simp: in_set_conv_decomp)
  show "x \<in> fst ` set E"
  proof (cases ys)
    case Nil
    then have "(x, hd c) \<in> set E" using assms c by (simp add: elementary_cycle_def)
    then show ?thesis by force
  next
    case (Cons y ys')
    then have "(x, y) \<in> set E"
      using assms c by (simp add: elementary_cycle_def simple_path_def successively_append_iff)
    then show ?thesis by force
  qed
qed

text \<open>
  C2. On the built graph, the list that \<open>detect_circular_dependencies\<close> returns has a
  rotation of every elementary cycle of the graph: a sequence of distinct modules,
  possibly a single one with a self-loop, with an edge from each to the next and from
  the last to the first.
\<close>

theorem detect_circular_dependencies_complete:
  assumes "graph_built st" and "elementary_cycle (edges (graph st)) c"
  shows "\<exists>n. rotate n c \<in> set (fst (detect_circular_dependencies st))"
proof -
  have "graph_over (set (dict_keys (modules st))) (graph st)"
    by (rule graph_built_graph_over[OF assms(1)])
  then have "fst ` set (edges (graph st)) \<subseteq> set (nodes (graph st))"
    by (auto simp: graph_over_def)
  with elementary_cycle_nodes[OF assms(2)] have "set c \<subseteq> set (nodes (graph st))"
    by blast
  from cycles_search_complete[OF assms(2) this]
  show ?thesis
    by (simp add: detect_circular_dependencies_def simple_cycles_def Let_def)
qed

text \<open>The ring \<open>A \<rightarrow> B \<rightarrow> C \<rightarrow> A\<close>.\<close>

theorem detect_circular_dependencies_complete_witness:
  "graph_built (build_dependency_graph (new_analyzer\<lparr>modules := ring_registry\<rparr>))
   \<and> elementary_cycle
        (edges (graph (build_dependency_graph (new_analyzer\<lparr>modules := ring_registry\<rparr>))))
        [''A'', ''B'', ''C'']
   \<and> (\<exists>n. rotate n [''A'', ''B'', ''C'']
          \<in> set (fst (detect_circular_dependencies
                        (build_dependency_graph (new_analyzer\<lparr>modules := ring_registry\<rparr>)))))"
proof -
  let ?st = "build_dependency_graph (new_analyzer\<lparr>modules := ring_registry\<rparr>)"
  have b: "graph_built ?st"
    by (rule graph_built_build) (simp add: new_analyzer_def)
  have e: "edges (graph ?st) = [(''C'', ''A''), (''A'', ''B''), (''B'', ''C'')]"
    by (simp add: build_dependency_graph_def new_analyzer_def ring_registry_def new_ModuleInfo_def
     add_dependency_edge_def add_edge_def add_node_def empty_digraph_def dict_keys_def Let_def)
  have c: "elementary_cycle (edges (graph ?st)) [''A'', ''B'', ''C'']"
    unfolding e by (simp add: elementary_cycle_def simple_path_def)
  show ?thesis
    using detect_circular_dependencies_complete[OF b c] b c by blast
qed

section \<open>Dependency paths\<close>

lemma map_of_dict_set: "map_of (dict_set k v d) = (map_of d)(k \<mapsto> v)"
  by (induction d) (auto simp: fun_eq_iff)

lemma for_each_dependency_paths_step:
  assumes "s \<in> set (nodes G)" and "set ts \<subseteq> set (nodes G)"
  shows "\<exists>paths'. for_each (dependency_paths_step G s) paths ts = Inr paths'
           \<and> (\<forall>k. map_of paths' k =
                 (if \<exists>t\<in>set ts. t \<noteq> s \<and> k = s @ ''->'' @ t
                        \<and> simple_walks (edges G) (\<lambda>u. u = t) [] s \<noteq> []
                  then Some (simple_walks (edges G) (\<lambda>u. u = drop (length s + 2) k) [] s)
                  else map_of paths k))"
  using assms(2)
proof (induction ts arbitrary: paths)
  case Nil
  then show ?case by simp
next
  case (Cons t ts)
  have t: "t \<in> set (nodes G)" and ts: "set ts \<subseteq> set (nodes G)"
    using Cons.prems by auto
  let ?W = "\<lambda>t. simple_walks (edges G) (\<lambda>u. u = t) [] s"
  define paths1 where "paths1 =
     (if t \<noteq> s \<and> ?W t \<noteq> [] then dict_set (s @ ''->'' @ t) (?W t) paths else paths)"
  have step: "dependency_paths_step G s paths t = Inr paths1"
    using all_simple_paths_correct(1)[OF assms(1) t]
    by (auto simp: dependency_paths_step_def paths1_def)
  from Cons.IH[OF ts, of paths1] obtain paths' where
    p: "for_each (dependency_paths_step G s) paths1 ts = Inr paths'"
       "\<And>k. map_of paths' k =
                 (if \<exists>t\<in>set ts. t \<noteq> s \<and> k = s @ ''->'' @ t \<and> ?W t \<noteq> []
                  then Some (?W (drop (length s + 2) k))
                  else map_of paths1 k)"
    by blast
  have "map_of paths' k =
                 (if \<exists>t'\<in>set (t # ts). t' \<noteq> s \<and> k = s @ ''->'' @ t' \<and> ?W t' \<noteq> []
                  then Some (?W (drop (length s + 2) k))
                  else map_of paths k)" for k
    unfolding p(2) paths1_def by (auto simp: map_of_dict_set)
  moreover have "for_each (dependency_paths_step G s) paths (t # ts) = Inr paths'"
    using p(1) step by simp
  ultimately show ?case by blast
qed

lemma for_each_dependency_paths:
  assumes "set ss \<subseteq> set (nodes G)" and "set ts \<subseteq> set (nodes G)"
    and "\<And>s t. s \<in> set ss \<Longrightarrow> t \<in> set ts \<Longrightarrow> s @ ''->'' @ t = s0 @ ''->'' @ t0
           \<Longrightarrow> s = s0 \<and> t = t0"
  shows "\<exists>paths'. for_each (\<lambda>paths s. for_each (dependency_paths_step G s) paths ts) paths ss
                     = Inr paths'
           \<and> map_of paths' (s0 @ ''->'' @ t0) =
                 (if s0 \<in> set ss \<and> t0 \<in> set ts \<and> t0 \<noteq> s0
                      \<and> simple_walks (edges G) (\<lambda>u. u = t0) [] s0 \<noteq> []
                  then Some (simple_walks (edges G) (\<lambda>u. u = t0) [] s0)
                  else map_of paths (s0 @ ''->'' @ t0))"
  using assms(1,3)
proof (induction ss arbitrary: paths)
  case Nil
  then show ?case by simp
next
  case (Cons s ss)
  have s: "s \<in> set (nodes G)" and ss: "set ss \<subseteq> set (nodes G)"
    using Cons.prems(1) by auto
  let ?k0 = "s0 @ ''->'' @ t0"
  let ?W = "\<lambda>s t. simple_walks (edges G) (\<lambda>u. u = t) [] s"
  from for_each_dependency_paths_step[OF s assms(2), of paths] obtain paths1 where
    p1: "for_each (dependency_paths_step G s) paths ts = Inr paths1"
        "\<And>k. map_of paths1 k =
                 (if \<exists>t\<in>set ts. t \<noteq> s \<and> k = s @ ''->'' @ t \<and> ?W s t \<noteq> []
                  then Some (?W s (drop (length s + 2) k))
                  else map_of paths k)"
    by blast
  have uniq: "s = s0 \<and> t = t0" if "t \<in> set ts" "?k0 = s @ ''->'' @ t" for t
    using Cons.prems(2)[of s t] that by simp
  have m1: "map_of paths1 ?k0 =
              (if s = s0 \<and> t0 \<in> set ts \<and> t0 \<noteq> s0 \<and> ?W s0 t0 \<noteq> []
               then Some (?W s0 t0) else map_of paths ?k0)"
  proof (cases "\<exists>t\<in>set ts. t \<noteq> s \<and> ?k0 = s @ ''->'' @ t \<and> ?W s t \<noteq> []")
    case True
    then obtain t where t: "t \<in> set ts" "t \<noteq> s" "?k0 = s @ ''->'' @ t" "?W s t \<noteq> []"
      by blast
    with uniq[OF t(1,3)] have "s = s0" "t = t0" by auto
    moreover have "drop (length s0 + 2) ?k0 = t0" by simp
    ultimately show ?thesis using True t unfolding p1(2) by auto
  next
    case False
    then show ?thesis unfolding p1(2) by auto
  qed
  from Cons.IH[OF ss, of paths1] Cons.prems(2) obtain paths' where
    p: "for_each (\<lambda>paths s. for_each (dependency_paths_step G s) paths ts) paths1 ss = Inr paths'"
       "map_of paths' ?k0 =
                 (if s0 \<in> set ss \<and> t0 \<in> set ts \<and> t0 \<noteq> s0 \<and> ?W s0 t0 \<noteq> []
                  then Some (?W s0 t0)
                  else map_of paths1 ?k0)"
    by auto
  have final: "map_of paths' ?k0 =
                 (if s0 \<in> set (s # ss) \<and> t0 \<in> set ts \<and> t0 \<noteq> s0 \<and> ?W s0 t0 \<noteq> []
                  then Some (?W s0 t0)
                  else map_of paths ?k0)"
    unfolding p(2) m1 by auto
  have run: "for_each (\<lambda>paths s. for_each (dependency_paths_step G s) paths ts) paths (s # ss)
               = Inr paths'"
    using p1(1) p(1) by simp
  show ?case using final run by blast
qed

text \<open>
  C7, amended. On the built graph, for distinct modules \<open>src\<close> and \<open>tgt\<close> of the registry
  such that no other ordered pair of registry names gives the same key text
  \<open>src->tgt\<close>: \<open>analyze_dependency_paths\<close> raises nothing; the key is in the mapping
  exactly when a simple path from \<open>src\<close> to \<open>tgt\<close> exists; its value then lists every
  simple path from \<open>src\<close> to \<open>tgt\<close> once and is not empty.
\<close>

theorem dependency_paths_when_keys_unambiguous:
  assumes "graph_built st"
    and "src \<in> set (dict_keys (modules st))" and "tgt \<in> set (dict_keys (modules st))"
    and "src \<noteq> tgt"
    and "\<forall>s\<in>set (dict_keys (modules st)). \<forall>t\<in>set (dict_keys (modules st)).
           s @ ''->'' @ t = src @ ''->'' @ tgt \<longrightarrow> s = src \<and> t = tgt"
  shows "\<exists>paths. map_sum id fst (analyze_dependency_paths st) = Inr paths
           \<and> (case map_of paths (src @ ''->'' @ tgt) of
                 None \<Rightarrow> \<not> (\<exists>p. simple_path (edges (graph st)) p \<and> hd p = src \<and> last p = tgt)
               | Some ps \<Rightarrow> ps \<noteq> [] \<and> distinct ps
                   \<and> set ps = {p. simple_path (edges (graph st)) p \<and> hd p = src \<and> last p = tgt})"
proof -
  let ?K = "dict_keys (modules st)"
  let ?W = "simple_walks (edges (graph st)) (\<lambda>u. u = tgt) [] src"
  have go: "graph_over (set ?K) (graph st)"
    by (rule graph_built_graph_over[OF assms(1)])
  then have nodes: "set (nodes (graph st)) = set ?K" and d: "distinct (edges (graph st))"
    by (simp_all add: graph_over_def)
  from for_each_dependency_paths[of ?K "graph st" ?K src tgt "[]"] assms(5) nodes
  obtain paths where
    p: "for_each (\<lambda>paths s. for_each (dependency_paths_step (graph st) s) paths ?K) [] ?K
          = Inr paths"
       "map_of paths (src @ ''->'' @ tgt) =
          (if src \<in> set ?K \<and> tgt \<in> set ?K \<and> tgt \<noteq> src \<and> ?W \<noteq> [] then Some ?W
           else map_of [] (src @ ''->'' @ tgt))"
    by auto
  have m: "map_of paths (src @ ''->'' @ tgt) = (if ?W \<noteq> [] then Some ?W else None)"
    using p(2) assms(2,3,4) by auto
  have W: "set ?W = {p. simple_path (edges (graph st)) p \<and> hd p = src \<and> last p = tgt}"
    by (simp add: set_simple_walks)
  have dW: "distinct ?W"
    by (rule distinct_simple_walks[OF d]) simp
  have r: "map_sum id fst (analyze_dependency_paths st) = Inr paths"
    by (simp add: analyze_dependency_paths_def p(1))
  show ?thesis
  proof (cases "?W = []")
    case True
    then have "{p. simple_path (edges (graph st)) p \<and> hd p = src \<and> last p = tgt} = {}"
      using W by simp
    then show ?thesis using r m True by auto
  next
    case False
    then show ?thesis using r m W dW by auto
  qed
qed

text \<open>
  C7 as stated fails where two ordered pairs of module names give the same key text.
  With the modules \<open>a\<close>, \<open>b->c\<close>, \<open>a->b\<close> and \<open>c\<close>, where \<open>c\<close> depends on \<open>a->b\<close>,
  the only edge goes from \<open>a->b\<close> to \<open>c\<close>. The mapping has the key \<open>a->b->c\<close>, which is
  also the key of the pair (\<open>a\<close>, \<open>b->c\<close>), and there is no path from \<open>a\<close> to \<open>b->c\<close>.
\<close>

theorem dependency_paths_key_collision:
  "map_sum id (r_dependency_paths \<circ> fst) (analyze new_analyzer arrow_files [])
     = Inr [(''a'' @ ''->'' @ ''b->c'', [[''a->b'', ''c'']])]
   \<and> map_sum id (graph \<circ> snd) (analyze new_analyzer arrow_files [])
     = Inr \<lparr>nodes = [''a'', ''b->c'', ''a->b'', ''c''], edges = [(''a->b'', ''c'')]\<rparr>
   \<and> all_simple_paths \<lparr>nodes = [''a'', ''b->c'', ''a->b'', ''c''], edges = [(''a->b'', ''c'')]\<rparr>
        ''a'' ''b->c'' = Inr []"
  by code_simp

text \<open>The chain of two modules: the one path from \<open>A\<close> to \<open>B\<close>.\<close>

theorem dependency_paths_when_keys_unambiguous_witness:
  "graph_built (build_dependency_graph (new_analyzer\<lparr>modules := chain_registry\<rparr>))
   \<and> (\<exists>paths. map_sum id fst (analyze_dependency_paths
                   (build_dependency_graph (new_analyzer\<lparr>modules := chain_registry\<rparr>))) = Inr paths
        \<and> (case map_of paths (''A'' @ ''->'' @ ''B'') of
              None \<Rightarrow> \<not> (\<exists>p. simple_path [(''A'', ''B'')] p \<and> hd p = ''A'' \<and> last p = ''B'')
            | Some ps \<Rightarrow> ps \<noteq> [] \<and> distinct ps
                \<and> set ps = {p. simple_path [(''A'', ''B'')] p \<and> hd p = ''A'' \<and> last p = ''B''}))"
proof -
  let ?st = "build_dependency_graph (new_analyzer\<lparr>modules := chain_registry\<rparr>)"
  have b: "graph_built ?st"
    by (rule graph_built_build) (simp add: new_analyzer_def)
  have k: "dict_keys (modules ?st) = [''A'', ''B'']"
    by (simp add: chain_registry_def dict_keys_def)
  have e: "edges (graph ?st) = [(''A'', ''B'')]"
    by (simp add: build_dependency_graph_def new_analyzer_def chain_registry_def new_ModuleInfo_def
     add_dependency_edge_def add_edge_def add_node_def empty_digraph_def dict_keys_def Let_def)
  have u: "\<forall>s\<in>set (dict_keys (modules ?st)). \<forall>t\<in>set (dict_keys (modules ?st)).
           s @ ''->'' @ t = ''A'' @ ''->'' @ ''B'' \<longrightarrow> s = ''A'' \<and> t = ''B''"
    unfolding k by simp
  have "''A'' \<in> set (dict_keys (modules ?st))" "''B'' \<in> set (dict_keys (modules ?st))"
    "''A'' \<noteq> ''B''"
    unfolding k by simp_all
  from dependency_paths_when_keys_unambiguous[OF b this u] b
  show ?thesis unfolding e by blast
qed

section \<open>The analysis never raises on a built graph\<close>

lemma for_each_dependency_paths_total:
  assumes "set ss \<subseteq> set (nodes G)" and "set ts \<subseteq> set (nodes G)"
  shows "\<exists>paths'. for_each (\<lambda>paths s. for_each (dependency_paths_step G s) paths ts) paths ss
                     = Inr paths'"
  using assms(1)
proof (induction ss arbitrary: paths)
  case Nil
  then show ?case by simp
next
  case (Cons s ss)
  have s: "s \<in> set (nodes G)" and ss: "set ss \<subseteq> set (nodes G)"
    using Cons.prems by auto
  from for_each_dependency_paths_step[OF s assms(2), of paths] obtain paths1 where
    "for_each (dependency_paths_step G s) paths ts = Inr paths1" by blast
  then show ?case using Cons.IH[OF ss, of paths1] by simp
qed

lemma analyze_dependency_paths_total:
  assumes "graph_built st"
  shows "\<exists>paths. analyze_dependency_paths st = Inr (paths, st\<lparr>dependency_paths := paths\<rparr>)"
proof -
  have "set (nodes (graph st)) = set (dict_keys (modules st))"
    using graph_built_graph_over[OF assms] by (simp add: graph_over_def)
  then obtain paths where
    "for_each (\<lambda>paths s. for_each (dependency_paths_step (graph st) s) paths
                 (dict_keys (modules st))) [] (dict_keys (modules st)) = Inr paths"
    using for_each_dependency_paths_total[of "dict_keys (modules st)" "graph st"
            "dict_keys (modules st)" "[]"]
    by auto
  then show ?thesis by (simp add: analyze_dependency_paths_def)
qed

lemma analyze_impact_total:
  assumes "set (dict_keys (modules st)) \<subseteq> set (nodes (graph st))"
  shows "\<exists>S. analyze_impact st M
               = Inr (S, if M \<in> set (dict_keys (modules st))
                         then st\<lparr>impact_analysis := dict_set M S (impact_analysis st)\<rparr> else st)"
proof (cases "M \<in> set (dict_keys (modules st))")
  case True
  then have "M \<in> set (nodes (graph st))" using assms by auto
  from for_each_impact_step[OF this assms, of "{}"] True
  show ?thesis by (simp add: analyze_impact_def)
next
  case False
  then show ?thesis by (simp add: analyze_impact_def)
qed

lemma for_each_impact_report_step_total:
  assumes "set (dict_keys (modules st)) \<subseteq> set (nodes (graph st))"
  shows "\<exists>rep' st'. for_each impact_report_step (rep, st) ks = Inr (rep', st')
           \<and> modules st' = modules st"
  using assms
proof (induction ks arbitrary: rep st)
  case Nil
  then show ?case by simp
next
  case (Cons k ks)
  from analyze_impact_total[OF Cons.prems, of k] obtain S st1 where
    a: "analyze_impact st k = Inr (S, st1)"
       "st1 = (if k \<in> set (dict_keys (modules st))
               then st\<lparr>impact_analysis := dict_set k S (impact_analysis st)\<rparr> else st)"
    by blast
  have inv: "set (dict_keys (modules st1)) \<subseteq> set (nodes (graph st1))"
    using Cons.prems a(2) by auto
  obtain rep1 where s: "impact_report_step (rep, st) k = Inr (rep1, st1)"
    using a(1) by (simp add: impact_report_step_def Let_def)
  have "modules st1 = modules st" using a(2) by simp
  then show ?case using Cons.IH[OF inv, of rep1] s by auto
qed

lemma generate_impact_report_total:
  assumes "graph_built st"
  shows "\<exists>rep st'. generate_impact_report st = Inr (rep, st') \<and> modules st' = modules st"
proof -
  have "set (dict_keys (modules st)) \<subseteq> set (nodes (graph st))"
    using graph_built_graph_over[OF assms] by (simp add: graph_over_def)
  from for_each_impact_report_step_total[OF this] obtain rep' st' where
    "for_each impact_report_step
       (\<lparr>high_impact_modules = [], module_impact_analysis = [], recommendations = []\<rparr>, st)
       (dict_keys (modules st)) = Inr (rep', st')" "modules st' = modules st"
    by blast
  then show ?thesis by (simp add: generate_impact_report_def)
qed

lemma graph_built_update:
  "graph_built st \<Longrightarrow> graph_built (st\<lparr>circular_dependencies := c\<rparr>)"
  "graph_built st \<Longrightarrow> graph_built (st\<lparr>dependency_paths := p\<rparr>)"
  by (simp_all add: graph_built_def build_dependency_graph_def Let_def)

text \<open>
  The results when the last two steps have succeeded, as \<open>analyze\<close> puts them together.
\<close>

lemma analyze_registry_total:
  assumes "graph st = empty_digraph"
  shows "\<exists>rep st'. analyze_registry st = Inr (rep, st') \<and> modules st' = modules st
           \<and> r_modules rep = map (\<lambda>(name, info). (name, report_module info)) (modules st)
           \<and> high_complexity rep
               = map fst (filter (\<lambda>(name, info). complexity_score info > 10) (modules st))
           \<and> medium_complexity rep
               = map fst (filter (\<lambda>(name, info). 5 < complexity_score info
                                               \<and> complexity_score info \<le> 10) (modules st))
           \<and> low_complexity rep
               = map fst (filter (\<lambda>(name, info). complexity_score info \<le> 5) (modules st))"
proof -
  define st1 where "st1 = build_dependency_graph st"
  define st2 where "st2 = st1\<lparr>circular_dependencies := simple_cycles (graph st1)\<rparr>"
  have b1: "graph_built st1" unfolding st1_def by (rule graph_built_build[OF assms])
  then have b2: "graph_built st2" unfolding st2_def by (rule graph_built_update)
  from analyze_dependency_paths_total[OF b2] obtain paths where
    p: "analyze_dependency_paths st2 = Inr (paths, st2\<lparr>dependency_paths := paths\<rparr>)"
    by blast
  have b3: "graph_built (st2\<lparr>dependency_paths := paths\<rparr>)"
    using b2 by (rule graph_built_update)
  from generate_impact_report_total[OF b3] obtain irep st4 where
    g: "generate_impact_report (st2\<lparr>dependency_paths := paths\<rparr>) = Inr (irep, st4)"
       "modules st4 = modules (st2\<lparr>dependency_paths := paths\<rparr>)"
    by blast
  have m: "modules st4 = modules st"
    using g(2) by (simp add: st2_def st1_def)
  show ?thesis
    unfolding analyze_registry_def Let_def detect_circular_dependencies_def
    using p g(1) m
    by (simp add: st1_def[symmetric] st2_def[symmetric])
qed

section \<open>Complexity buckets\<close>

lemma graph_parse_terragrunt_files [simp]: "graph (parse_terragrunt_files st fs) = graph st"
  unfolding parse_terragrunt_files_def
  by (rule foldl_invariant[where P="\<lambda>s. graph s = graph st"])
     (auto split: prod.splits option.splits)

lemma graph_parse_terraform_files [simp]: "graph (parse_terraform_files st fs) = graph st"
  unfolding parse_terraform_files_def
  by (rule foldl_invariant[where P="\<lambda>s. graph s = graph st"])
     (auto split: option.splits)

lemma distinct_keys_parsed:
  "distinct (dict_keys (modules (parse_terraform_files (parse_terragrunt_files new_analyzer tgs) tfs)))"
  by (intro distinct_parse_terraform_files distinct_parse_terragrunt_files)
     (simp add: new_analyzer_def dict_keys_def)

lemma bucket_disjoint:
  assumes "distinct (map fst ms)" and "\<And>x. x \<in> set ms \<Longrightarrow> \<not> (P x \<and> Q x)"
  shows "set (map fst (filter P ms)) \<inter> set (map fst (filter Q ms)) = {}"
proof (rule ccontr)
  assume "set (map fst (filter P ms)) \<inter> set (map fst (filter Q ms)) \<noteq> {}"
  then obtain n a b where "(n, a) \<in> set ms" "P (n, a)" "(n, b) \<in> set ms" "Q (n, b)"
    by auto
  moreover from this assms(1) have "a = b" by (meson eq_key_imp_eq_value)
  ultimately show False using assms(2) by blast
qed

lemma buckets_partition:
  fixes ms :: registry
  assumes "distinct (map fst ms)"
  defines "hi \<equiv> map fst (filter (\<lambda>(name, info). complexity_score info > 10) ms)"
    and "me \<equiv> map fst (filter (\<lambda>(name, info). 5 < complexity_score info
                                               \<and> complexity_score info \<le> 10) ms)"
    and "lo \<equiv> map fst (filter (\<lambda>(name, info). complexity_score info \<le> 5) ms)"
  shows "distinct (hi @ me @ lo)" and "set (hi @ me @ lo) = set (map fst ms)"
proof -
  have d: "distinct hi" "distinct me" "distinct lo"
    unfolding hi_def me_def lo_def using assms(1) by (simp_all add: distinct_map_filter)
  have "set hi \<inter> set me = {}" "set hi \<inter> set lo = {}" "set me \<inter> set lo = {}"
    unfolding hi_def me_def lo_def
    by (rule bucket_disjoint[OF assms(1)]; auto)+
  with d show "distinct (hi @ me @ lo)" by auto
  show "set (hi @ me @ lo) = set (map fst ms)"
    unfolding hi_def me_def lo_def by (auto simp: image_iff) force+
qed

text \<open>
  C10. \<open>analyze\<close> returns a report for all files, and in it the three complexity lists
  partition the module names: together they hold every name of the registry, no name
  is in two of them or twice in one, and a name is in the high, medium or low list
  when its score is above 10, above 5 and at most 10, or at most 5.
\<close>

theorem complexity_buckets_partition:
  "\<exists>rep st. analyze new_analyzer tgs tfs = Inr (rep, st)
     \<and> map fst (r_modules rep) = dict_keys (modules st)
     \<and> distinct (high_complexity rep @ medium_complexity rep @ low_complexity rep)
     \<and> set (high_complexity rep @ medium_complexity rep @ low_complexity rep)
         = set (dict_keys (modules st))
     \<and> set (high_complexity rep)
         = {n. \<exists>info. (n, info) \<in> set (modules st) \<and> complexity_score info > 10}
     \<and> set (medium_complexity rep)
         = {n. \<exists>info. (n, info) \<in> set (modules st) \<and> 5 < complexity_score info
                        \<and> complexity_score info \<le> 10}
     \<and> set (low_complexity rep)
         = {n. \<exists>info. (n, info) \<in> set (modules st) \<and> complexity_score info \<le> 5}"
proof -
  define st0 where "st0 = parse_terraform_files (parse_terragrunt_files new_analyzer tgs) tfs"
  have g: "graph st0 = empty_digraph" by (simp add: st0_def new_analyzer_def)
  have d: "distinct (map fst (modules st0))"
    using distinct_keys_parsed[of tgs tfs] by (simp add: st0_def dict_keys_def)
  from analyze_registry_total[OF g] obtain rep st where
    r: "analyze_registry st0 = Inr (rep, st)" "modules st = modules st0"
       "r_modules rep = map (\<lambda>(name, info). (name, report_module info)) (modules st0)"
       "high_complexity rep
               = map fst (filter (\<lambda>(name, info). complexity_score info > 10) (modules st0))"
       "medium_complexity rep
               = map fst (filter (\<lambda>(name, info). 5 < complexity_score info
                                               \<and> complexity_score info \<le> 10) (modules st0))"
       "low_complexity rep
               = map fst (filter (\<lambda>(name, info). complexity_score info \<le> 5) (modules st0))"
    by blast
  have a: "analyze new_analyzer tgs tfs = Inr (rep, st)"
    using r(1) by (simp add: analyze_def Let_def st0_def)
  have k: "map fst (r_modules rep) = dict_keys (modules st)"
    unfolding r(2,3) dict_keys_def by (induction "modules st0") auto
  have p: "distinct (high_complexity rep @ medium_complexity rep @ low_complexity rep)"
       "set (high_complexity rep @ medium_complexity rep @ low_complexity rep)
          = set (dict_keys (modules st))"
    unfolding r(2,4,5,6) dict_keys_def using buckets_partition[OF d] by simp_all
  have s: "set (high_complexity rep)
         = {n. \<exists>info. (n, info) \<in> set (modules st) \<and> complexity_score info > 10}"
     "set (medium_complexity rep)
         = {n. \<exists>info. (n, info) \<in> set (modules st) \<and> 5 < complexity_score info
                        \<and> complexity_score info \<le> 10}"
     "set (low_complexity rep)
         = {n. \<exists>info. (n, info) \<in> set (modules st) \<and> complexity_score info \<le> 5}"
    unfolding r(2,4,5,6) by force+
  show ?thesis using a k p s by blast
qed

section \<open>The error log does not influence the analysis\<close>








section \<open>Files that do not parse\<close>











section \<open>The analyzer on concrete inputs\<close>

text \<open>
  C3 does not hold of the code. \<open>parse_terraform_files\<close> never calls
  \<open>_calculate_complexity_score\<close>, so the module \<open>web\<close> of a module block keeps the score 0
  of a new descriptor, where the formula gives 3 (one dependency). The score of the
  terragrunt module \<open>vpc\<close> is computed when its file has been parsed, before the output
  block adds the output \<open>id\<close> to it: it stays 1, where the formula gives 2.
\<close>

theorem complexity_score_not_recomputed:
  "map_sum id (map (map_prod id complexity_score) \<circ> modules \<circ> snd)
     (analyze new_analyzer [tg_file ''vpc'' [] None] [vpc_web_tf])
     = Inr [(''vpc'', 1), (''web'', 0)]
   \<and> map_sum id (map (map_prod id calculate_complexity_score) \<circ> modules \<circ> snd)
     (analyze new_analyzer [tg_file ''vpc'' [] None] [vpc_web_tf])
     = Inr [(''vpc'', 2), (''web'', 3)]"
  by code_simp

lemma add_module_ref_self: "add_module_ref ty fp mi [name mi, ref_output] = mi"
  by simp

text \<open>
  C4 does not hold of the code. The module references in expressions are dropped when
  they name the module itself, but \<open>parse_terragrunt_file\<close> does not compare the target of
  a dependency block with the name of the module: the module \<open>app\<close> with the dependency
  path \<open>../../net/app\<close> gets itself as a terragrunt dependency, a record from \<open>app\<close> to
  \<open>app\<close>, the edge from \<open>app\<close> to \<open>app\<close> and the cycle of \<open>app\<close> alone.
\<close>

theorem terragrunt_self_dependency_kept:
  "map_sum id (modules \<circ> snd) (analyze new_analyzer [self_dependency_file] [])
     = Inr [(''app'',
             (new_ModuleInfo ''app'' [] ''live/net/app'')
               \<lparr>terragrunt_dependencies := [''app''],
                dependency_details :=
                  [\<lparr>source_module = ''app'', target_module = ''app'',
                    dependency_type = ''terragrunt'', reference_path = ''../../net/app'',
                    line_number = None,
                    file_path = Some ''live/net/app/terragrunt.hcl''\<rparr>],
                complexity_score := 3\<rparr>)]
   \<and> map_sum id (edges \<circ> graph \<circ> snd) (analyze new_analyzer [self_dependency_file] [])
     = Inr [(''app'', ''app'')]
   \<and> map_sum id (r_circular_dependencies \<circ> fst) (analyze new_analyzer [self_dependency_file] [])
     = Inr [[''app'']]"
  by code_simp



section \<open>Remote-state references\<close>






lemma not_ident_dot [simp]: "\<not> ident_char CHR ''.''"
  by (simp add: ident_char_def)







lemma add_module_ref_fields [simp]:
  "name (add_module_ref ty fp mi grp) = name mi"
  "data_sources (add_module_ref ty fp mi grp) = data_sources mi"
  "terragrunt_dependencies (add_module_ref ty fp mi grp) = terragrunt_dependencies mi"
  by (cases "(ty, fp, mi, grp)" rule: add_module_ref.cases; simp)+

lemma foldl_add_module_ref_fields [simp]:
  "name (foldl (add_module_ref ty fp) mi grps) = name mi"
  "data_sources (foldl (add_module_ref ty fp) mi grps) = data_sources mi"
  "terragrunt_dependencies (foldl (add_module_ref ty fp) mi grps) = terragrunt_dependencies mi"
  by (induction grps arbitrary: mi; simp)+



section \<open>References to modules that no file defines\<close>

lemma refs_recorded_new [simp]: "refs_recorded (new_ModuleInfo n s p)"
  by (simp add: refs_recorded_def new_ModuleInfo_def)

lemma name_new [simp]: "name (new_ModuleInfo n s p) = n"
  by (simp add: new_ModuleInfo_def)


lemma add_data_ref_fields [simp]:
  "name (add_data_ref fp mi grp) = name mi"
  "dependencies (add_data_ref fp mi grp) = dependencies mi"
  "terragrunt_dependencies (add_data_ref fp mi grp) = terragrunt_dependencies mi"
  by (cases "(fp, mi, grp)" rule: add_data_ref.cases; simp)+

lemma add_remote_state_ref_fields [simp]:
  "name (add_remote_state_ref fp mi grp) = name mi"
  "dependencies (add_remote_state_ref fp mi grp) = dependencies mi"
  "terragrunt_dependencies (add_remote_state_ref fp mi grp) = terragrunt_dependencies mi"
  by (cases "(fp, mi, grp)" rule: add_remote_state_ref.cases; simp)+




lemma name_add_terragrunt_dependency [simp]:
  "name (add_terragrunt_dependency fp mi dep) = name mi"
  by (simp add: add_terragrunt_dependency_def Let_def split: option.splits)



lemma refs_recorded_update [simp]:
  "refs_recorded (mi\<lparr>source := s\<rparr>) = refs_recorded mi"
  "refs_recorded (mi\<lparr>variables := v\<rparr>) = refs_recorded mi"
  "refs_recorded (mi\<lparr>complexity_score := c\<rparr>) = refs_recorded mi"
  "refs_recorded (mi\<lparr>outputs := out\<rparr>) = refs_recorded mi"
  by (simp_all add: refs_recorded_def)












section \<open>The registry holds the modules that the files define\<close>







section \<open>The state after the analysis\<close>

lemma impact_report_step_state:
  assumes "impact_report_step (rep, st) k = Inr (rep1, st1)"
  shows "modules st1 = modules st \<and> graph st1 = graph st"
  using assms
  by (auto simp: impact_report_step_def analyze_impact_def Let_def
        split: sum.splits if_splits prod.splits)

lemma for_each_impact_report_step_state:
  "for_each impact_report_step (rep, st) ks = Inr (rep', st')
   \<Longrightarrow> modules st' = modules st \<and> graph st' = graph st"
proof (induction ks arbitrary: rep st)
  case Nil
  then show ?case by simp
next
  case (Cons k ks)
  from Cons.prems obtain rep1 st1 where
    s: "impact_report_step (rep, st) k = Inr (rep1, st1)"
       "for_each impact_report_step (rep1, st1) ks = Inr (rep', st')"
    by (auto split: sum.splits)
  from Cons.IH[OF s(2)] impact_report_step_state[OF s(1)] show ?case by simp
qed

lemma analyze_registry_state:
  assumes "analyze_registry st0 = Inr (rep, st)"
  shows "modules st = modules st0 \<and> graph st = graph (build_dependency_graph st0)"
proof -
  define st2 where "st2 = (build_dependency_graph st0)
      \<lparr>circular_dependencies := simple_cycles (graph (build_dependency_graph st0))\<rparr>"
  from assms obtain paths st3 irep where
    p: "analyze_dependency_paths st2 = Inr (paths, st3)"
       and g: "generate_impact_report st3 = Inr (irep, st)"
    unfolding analyze_registry_def Let_def detect_circular_dependencies_def st2_def
    by (auto split: sum.splits prod.splits)
  have 3: "modules st3 = modules st0" "graph st3 = graph (build_dependency_graph st0)"
    using p by (auto simp: analyze_dependency_paths_def st2_def split: sum.splits)
  from g obtain rep' where
    "for_each impact_report_step
       (\<lparr>high_impact_modules = [], module_impact_analysis = [], recommendations = []\<rparr>, st3)
       (dict_keys (modules st3)) = Inr (rep', st)"
    by (auto simp: generate_impact_report_def split: sum.splits prod.splits)
  from for_each_impact_report_step_state[OF this] 3 show ?thesis by simp
qed

text \<open>After \<open>analyze\<close> the graph of the analyzer is the graph of its registry.\<close>

lemma graph_built_after_analyze:
  assumes "analyze new_analyzer tgs tfs = Inr (rep, st)"
  shows "graph_built st"
proof -
  define st0 where "st0 = parse_terraform_files (parse_terragrunt_files new_analyzer tgs) tfs"
  have g0: "graph st0 = empty_digraph" by (simp add: st0_def new_analyzer_def)
  have "analyze_registry st0 = Inr (rep, st)"
    using assms by (simp add: analyze_def Let_def st0_def)
  from analyze_registry_state[OF this] have
    m: "modules st = modules st0" and g: "graph st = graph (build_dependency_graph st0)"
    by simp_all
  have "graph (build_dependency_graph (st\<lparr>graph := empty_digraph\<rparr>))
          = graph (build_dependency_graph st0)"
    using m g0 by (simp add: build_dependency_graph_def Let_def)
  then show ?thesis using g by (simp add: graph_built_def)
qed



end
